theory Spec2Isabelle
  imports Main "HOL-Library.AList"
begin

section \<open>Strings and paths\<close>

text \<open>
  The program is written against Go's standard library. The library functions it calls
  on paths are modelled here for Unix builds (separator \<open>/\<close>), following their
  documented behaviour; strings are byte lists.
\<close>

text \<open>\<open>strings.Split(s, "/")\<close>: the pieces between the separators, \<open>[""]\<close> for the empty string.\<close>

fun strings_Split :: "string \<Rightarrow> string list" where
  "strings_Split [] = [[]]"
| "strings_Split (c # cs) =
     (if c = CHR ''/'' then [] # strings_Split cs
      else (case strings_Split cs of [] \<Rightarrow> [[c]] | w # ws \<Rightarrow> (c # w) # ws))"

text \<open>\<open>strings.Join(elems, "/")\<close>.\<close>

fun strings_Join :: "string list \<Rightarrow> string" where
  "strings_Join [] = []"
| "strings_Join [x] = x"
| "strings_Join (x # y # ys) = x @ CHR ''/'' # strings_Join (y # ys)"

text \<open>
  \<open>path.Clean\<close>: empty and \<open>.\<close> elements are dropped, an inner \<open>..\<close> removes the
  element before it, a \<open>..\<close> at the start of a rooted path is dropped, and the empty
  result is \<open>.\<close>. The elements kept so far are held in reverse.
\<close>

fun cleanStep :: "bool \<Rightarrow> string list \<Rightarrow> string \<Rightarrow> string list" where
  "cleanStep rooted out seg =
     (if seg = [] \<or> seg = ''.'' then out
      else if seg = ''..'' then
        (case out of
           [] \<Rightarrow> (if rooted then [] else [''..''])
         | last_kept # rest \<Rightarrow> (if last_kept = ''..'' then ''..'' # out else rest))
      else seg # out)"

definition isRooted :: "string \<Rightarrow> bool" where
  "isRooted p = (case p of [] \<Rightarrow> False | c # _ \<Rightarrow> c = CHR ''/'')"

definition path_Clean :: "string \<Rightarrow> string" where
  "path_Clean p =
     (let out = rev (foldl (cleanStep (isRooted p)) [] (strings_Split p));
          s = (if isRooted p then ''/'' else []) @ strings_Join out
      in if s = [] then ''.'' else s)"

text \<open>\<open>path.Dir\<close>: everything up to and including the last slash, cleaned.\<close>

definition path_Dir :: "string \<Rightarrow> string" where
  "path_Dir p = path_Clean (rev (dropWhile (\<lambda>c. c \<noteq> CHR ''/'') (rev p)))"

text \<open>
  \<open>path.Join\<close> of two elements (and \<open>filepath.Join\<close>, which is the same function on
  Unix): empty elements are ignored, the rest is joined by a slash and cleaned; the join
  of two empty strings is empty.
\<close>

definition path_Join :: "string \<Rightarrow> string \<Rightarrow> string" where
  "path_Join a b =
     (if a = [] \<and> b = [] then []
      else if a = [] then path_Clean b
      else path_Clean (a @ CHR ''/'' # b))"

text \<open>
  \<open>filepath.Rel(basepath, targpath)\<close>: both paths are cleaned and compared element by
  element; what is left of the base becomes \<open>..\<close> elements, and the result is
  cleaned. \<open>None\<close> is the error: one path is rooted and the other is not, or what is
  left of the base starts with \<open>..\<close>, which cannot be resolved without the working
  directory.
\<close>

definition elems :: "string \<Rightarrow> string list" where
  "elems p = filter (\<lambda>s. s \<noteq> []) (strings_Split p)"

fun dropCommon :: "string list \<Rightarrow> string list \<Rightarrow> string list \<times> string list" where
  "dropCommon (b # bs) (t # ts) = (if b = t then dropCommon bs ts else (b # bs, t # ts))"
| "dropCommon bs ts = (bs, ts)"

definition filepath_Rel :: "string \<Rightarrow> string \<Rightarrow> string option" where
  "filepath_Rel basepath targpath =
     (let base = path_Clean basepath; targ = path_Clean targpath in
      if targ = base then Some ''.''
      else
        let base' = (if base = ''.'' then [] else base) in
        if isRooted base' \<noteq> isRooted targ then None
        else
          (case dropCommon (elems base') (elems targ) of
             ([], ts) \<Rightarrow> Some (path_Clean (strings_Join ts))
           | (b # bs, ts) \<Rightarrow>
               if b = ''..'' then None
               else Some (path_Clean (strings_Join (replicate (Suc (length bs)) ''..'' @ ts)))))"

text \<open>\<open>normalizePath\<close>: every backslash becomes a slash.\<close>

definition normalizePath :: "string \<Rightarrow> string" where
  "normalizePath p = map (\<lambda>c. if c = CHR 0x5C then CHR ''/'' else c) p"


section \<open>The exclusion matcher\<close>

datatype error =
    ErrBadPattern
  | OSError string
  | TransportError string
  | Wrapped string error

text \<open>
  \<open>path.Match(pattern, name)\<close> returns a pair \<open>(matched, err)\<close>. The glob matcher of
  the standard library is a parameter of the model: every theorem below holds for every
  function of this type.
\<close>

type_synonym matcher = "string \<Rightarrow> string \<Rightarrow> bool \<times> error option"

text \<open>The test \<open>err == nil && matched\<close> that follows both calls of \<open>path.Match\<close>.\<close>

definition matches :: "matcher \<Rightarrow> string \<Rightarrow> string \<Rightarrow> bool" where
  "matches pm pattern name = (case pm pattern name of (matched, err) \<Rightarrow> err = None \<and> matched)"

text \<open>The inner loop of \<open>shouldExclude\<close>, over the parts of the path.\<close>

fun anyPart :: "matcher \<Rightarrow> string \<Rightarrow> string list \<Rightarrow> bool" where
  "anyPart pm pattern [] = False"
| "anyPart pm pattern (part # parts) =
     (if matches pm pattern part then True else anyPart pm pattern parts)"

fun shouldExclude :: "matcher \<Rightarrow> string \<Rightarrow> string list \<Rightarrow> bool" where
  "shouldExclude pm fullpath [] = False"
| "shouldExclude pm fullpath (pattern # excludePatterns) =
     (if matches pm pattern fullpath then True
      else if anyPart pm pattern (strings_Split fullpath) then True
      else shouldExclude pm fullpath excludePatterns)"

text \<open>
  A matcher for the wildcard fragment of \<open>path.Match\<close> on ASCII names, to run the
  model on concrete inputs: \<open>*\<close> is any run of characters other than the slash,
  \<open>?\<close> one such character, every other character stands for itself. Character classes
  and escapes are outside the fragment, where \<open>path.Match\<close> does more than this
  matcher, which reports every pattern that holds \<open>[\<close> or a backslash as malformed. It
  is used on concrete inputs only, with patterns of the fragment and the malformed
  pattern \<open>[x\<close>.
\<close>

fun glob :: "string \<Rightarrow> string \<Rightarrow> bool" where
  "glob [] name = (name = [])"
| "glob (p # ps) [] = (p = CHR ''*'' \<and> glob ps [])"
| "glob (p # ps) (c # cs) =
     (if p = CHR ''*'' then glob ps (c # cs) \<or> (c \<noteq> CHR ''/'' \<and> glob (p # ps) cs)
      else if p = CHR ''?'' then c \<noteq> CHR ''/'' \<and> glob ps cs
      else c = p \<and> glob ps cs)"

definition globMatch :: matcher where
  "globMatch pattern name =
     (if CHR ''['' \<in> set pattern \<or> CHR 0x5C \<in> set pattern then (False, Some ErrBadPattern)
      else (glob pattern name, None))"

section \<open>Data model\<close>

text \<open>\<open>FileInfo\<close>: one object of the remote listing.\<close>

record FileInfo =
  Path :: string
  Size :: int
  LastModified :: nat
  ETag :: string

text \<open>\<open>R2Client\<close> without the SDK handle.\<close>

record R2Client =
  bucket :: string
  scheme :: string

definition RemotePath :: "R2Client \<Rightarrow> string \<Rightarrow> string" where
  "RemotePath r p = scheme r @ ''://'' @ bucket r @ ''/'' @ p"

text \<open>
  The local tree as \<open>filepath.Walk\<close> meets it: a regular file with its name and
  \<open>info.Size()\<close>, a directory with its name and its entries in the order \<open>Walk\<close>
  visits them, or an entry for which \<open>Walk\<close> hands an error to the callback
  (\<open>lstat\<close> or the directory read failed).
\<close>

datatype fsnode =
    File string int
  | Dir string "fsnode list"
  | Broken string error

fun nodeName :: "fsnode \<Rightarrow> string" where
  "nodeName (File name _) = name"
| "nodeName (Dir name _) = name"
| "nodeName (Broken name _) = name"

fun isDir :: "fsnode \<Rightarrow> bool" where
  "isDir (Dir _ _) = True"
| "isDir _ = False"

fun isFile :: "fsnode \<Rightarrow> bool" where
  "isFile (File _ _) = True"
| "isFile _ = False"

text \<open>\<open>info.Size()\<close>; the program reads it for regular files only.\<close>

fun infoSize :: "fsnode \<Rightarrow> int" where
  "infoSize (File _ sz) = sz"
| "infoSize _ = 0"

text \<open>
  What the outside world answers during one run: the objects of the remote listing (all
  pages, in order) or the error of the listing call; for a local path the hex MD5 digest
  of its contents or the error of opening or reading it; the error, if any, of opening a
  local file for upload, of \<open>PutObject\<close> and of the storage service's delete call.
\<close>

record world =
  listing :: "error + FileInfo list"
  md5hex :: "string \<Rightarrow> error + string"
  openErr :: "string \<Rightarrow> error option"
  putErr :: "string \<Rightarrow> error option"
  delErr :: "string \<Rightarrow> error option"

text \<open>What a run does, in order: log lines, calls to the storage service, hashing, the
  admission gate, and the tasks it starts.\<close>

datatype task = UploadTask string string | DeleteTask string

datatype logmsg =
    GettingRemoteList string
  | Uploading string string
  | DryrunUpload string string
  | UploadDone string string
  | UploadFailed string error
  | FilesUploaded nat
  | StartingDeletion
  | Deleting string
  | DryrunDelete string
  | DeleteDone string
  | DeleteFailed string error
  | FilesDeleted nat
  | SyncCompleted
  | Usage
  | InvalidTarget error
  | Fatal error

datatype event =
    EvLog logmsg
  | EvList string
  | EvPut string string
  | EvDelete string
  | EvHash string
  | EvClaim string
  | EvAcquire
  | EvRelease
  | EvGo task

section \<open>Storage operations\<close>

text \<open>\<open>ListObjects\<close>: the pages are folded into one map, a later object replacing an
  earlier one with the same key.\<close>

definition ListObjects :: "world \<Rightarrow> string \<Rightarrow> error + (string \<times> FileInfo) list" where
  "ListObjects w prefix =
     (case listing w of
        Inl err \<Rightarrow> Inl err
      | Inr objs \<Rightarrow> Inr (foldl (\<lambda>result obj. AList.update (Path obj) obj result) [] objs))"

definition UploadFile :: "R2Client \<Rightarrow> world \<Rightarrow> string \<Rightarrow> string \<Rightarrow> bool \<Rightarrow> event list \<times> error option" where
  "UploadFile r w localPath remotePath dryRun =
     (if dryRun then ([EvLog (DryrunUpload localPath (RemotePath r remotePath))], None)
      else
        (case openErr w localPath of
           Some err \<Rightarrow> ([], Some err)
         | None \<Rightarrow>
             (case putErr w remotePath of
                Some err \<Rightarrow> ([EvPut remotePath localPath], Some err)
              | None \<Rightarrow>
                  ([EvPut remotePath localPath,
                    EvLog (UploadDone localPath (RemotePath r remotePath))], None))))"

definition DeleteObject :: "R2Client \<Rightarrow> world \<Rightarrow> string \<Rightarrow> bool \<Rightarrow> event list \<times> error option" where
  "DeleteObject r w remotePath dryRun =
     (if dryRun then ([EvLog (DryrunDelete (RemotePath r remotePath))], None)
      else
        (case delErr w remotePath of
           Some err \<Rightarrow> ([EvDelete remotePath], Some err)
         | None \<Rightarrow> ([EvDelete remotePath, EvLog (DeleteDone (RemotePath r remotePath))], None)))"

text \<open>\<open>calcETag\<close>: the digest in double quotes, or the error of opening or reading.\<close>

definition calcETag :: "world \<Rightarrow> string \<Rightarrow> error + string" where
  "calcETag w path =
     (case md5hex w path of
        Inl err \<Rightarrow> Inl err
      | Inr digest \<Rightarrow> Inr (CHR 0x22 # digest @ [CHR 0x22]))"

text \<open>The bodies of the two goroutines. Each ends by giving its slot back.\<close>

definition uploadTask :: "R2Client \<Rightarrow> world \<Rightarrow> bool \<Rightarrow> string \<Rightarrow> string \<Rightarrow> event list" where
  "uploadTask r w dryRun localPath remoteKey =
     (let fullKey = RemotePath r remoteKey in
      case UploadFile r w localPath remoteKey dryRun of
        (evs, err) \<Rightarrow>
          [EvLog (Uploading localPath fullKey)] @ evs @
          (case err of Some e \<Rightarrow> [EvLog (UploadFailed fullKey e)] | None \<Rightarrow> []) @
          [EvRelease])"

definition deleteTask :: "R2Client \<Rightarrow> world \<Rightarrow> bool \<Rightarrow> string \<Rightarrow> event list" where
  "deleteTask r w dryRun key =
     (let fullKey = RemotePath r key in
      case DeleteObject r w key dryRun of
        (evs, err) \<Rightarrow>
          [EvLog (Deleting fullKey)] @ evs @
          (case err of Some e \<Rightarrow> [EvLog (DeleteFailed fullKey e)] | None \<Rightarrow> []) @
          [EvRelease])"

section \<open>Walking the local tree\<close>

text \<open>
  What the callback of \<open>filepath.Walk\<close> returns: \<open>nil\<close>, \<open>filepath.SkipDir\<close>, or
  anything that stops the walk.
\<close>

datatype 'e action = Next | SkipDir | Stop 'e

text \<open>
  \<open>filepath.Walk\<close>: the callback is called for the root and then for every entry, a
  directory before its entries. \<open>SkipDir\<close> returned for a directory skips its entries;
  returned for a file it skips the rest of the directory that holds the file.
\<close>

definition filepath_Join :: "string \<Rightarrow> string \<Rightarrow> string" where
  "filepath_Join a b = path_Join a b"

fun walk :: "(string \<Rightarrow> fsnode \<Rightarrow> 's \<Rightarrow> 'e action \<times> 's) \<Rightarrow> string \<Rightarrow> fsnode \<Rightarrow> 's \<Rightarrow> 'e action \<times> 's"
  and walkDir :: "(string \<Rightarrow> fsnode \<Rightarrow> 's \<Rightarrow> 'e action \<times> 's) \<Rightarrow> string \<Rightarrow> fsnode list \<Rightarrow> 's \<Rightarrow> 'e action \<times> 's"
where
  "walk fn path (Dir name entries) s =
     (case fn path (Dir name entries) s of
        (Next, s') \<Rightarrow> walkDir fn path entries s'
      | (SkipDir, s') \<Rightarrow> (SkipDir, s')
      | (Stop e, s') \<Rightarrow> (Stop e, s'))"
| "walk fn path (File name sz) s = fn path (File name sz) s"
| "walk fn path (Broken name err) s = fn path (Broken name err) s"
| "walkDir fn path [] s = (Next, s)"
| "walkDir fn path (entry # entries) s =
     (case walk fn (filepath_Join path (nodeName entry)) entry s of
        (Next, s') \<Rightarrow> walkDir fn path entries s'
      | (SkipDir, s') \<Rightarrow> (if isFile entry then (SkipDir, s') else walkDir fn path entries s')
      | (Stop e, s') \<Rightarrow> (Stop e, s'))"

definition filepath_Walk :: "(string \<Rightarrow> fsnode \<Rightarrow> 's \<Rightarrow> 'e action \<times> 's) \<Rightarrow> string \<Rightarrow> fsnode \<Rightarrow> 's \<Rightarrow> 'e option \<times> 's" where
  "filepath_Walk fn root tree s =
     (case walk fn root tree s of
        (Stop e, s') \<Rightarrow> (Some e, s')
      | (Next, s') \<Rightarrow> (None, s')
      | (SkipDir, s') \<Rightarrow> (None, s'))"


section \<open>Sync\<close>

text \<open>The parameters of \<open>Sync\<close>.\<close>

record config =
  localPath :: string
  remotePath :: string
  deleteSync :: bool
  dryRun :: bool
  recursive :: bool
  concurrency :: int
  sizeOnly :: bool
  excludePatterns :: "string list"

text \<open>
  The variables the callback shares with \<open>Sync\<close>: the map of remote objects, keys
  distinct, and the upload counter; and the events so far.
\<close>

record walk_state =
  remoteFiles :: "(string \<times> FileInfo) list"
  uploadCount :: nat
  trace :: "event list"

text \<open>
  The callback stops the walk by returning an error, or never returns: a send on the
  gate \<open>semaphore\<close> blocks for ever when the channel has no buffer, because only a
  started task receives from the channel and a task is started after the send made for it.
\<close>

datatype abort = Failed error | Deadlock

text \<open>The decision \<open>needUpload\<close> for a candidate, given what the map holds for its key.\<close>

definition needUpload :: "world \<Rightarrow> bool \<Rightarrow> string \<Rightarrow> int \<Rightarrow> FileInfo option \<Rightarrow> event list \<times> (error + bool)" where
  "needUpload w szOnly fullpath sz remote =
     (case remote of
        None \<Rightarrow> ([], Inr True)
      | Some remoteInfo \<Rightarrow>
          if szOnly then ([], Inr (sz \<noteq> Size remoteInfo))
          else
            (case calcETag w fullpath of
               Inl err \<Rightarrow> ([EvHash fullpath], Inl err)
             | Inr etag \<Rightarrow>
                 ([EvHash fullpath], Inr (sz \<noteq> Size remoteInfo \<or> etag \<noteq> ETag remoteInfo))))"

text \<open>
  Submitting an upload: the counter goes up, the submitter takes a slot of the gate
  (capacity \<open>cap\<close>) and starts the task. The task's events are recorded where it is
  started; tasks that run side by side may interleave theirs in any order.
\<close>

definition submitUpload :: "R2Client \<Rightarrow> world \<Rightarrow> bool \<Rightarrow> nat \<Rightarrow> string \<Rightarrow> string \<Rightarrow> walk_state \<Rightarrow> abort action \<times> walk_state" where
  "submitUpload r w dry cap fullpath remoteKey st =
     (let st1 = st\<lparr>uploadCount := uploadCount st + 1\<rparr> in
      if cap = 0 then (Stop Deadlock, st1)
      else
        (Next, st1\<lparr>trace := trace st1 @ [EvAcquire, EvGo (UploadTask fullpath remoteKey)] @
                              uploadTask r w dry fullpath remoteKey\<rparr>))"

text \<open>The callback that \<open>Sync\<close> passes to \<open>filepath.Walk\<close>.\<close>

definition syncWalkFn :: "R2Client \<Rightarrow> world \<Rightarrow> matcher \<Rightarrow> config \<Rightarrow> nat \<Rightarrow> string \<Rightarrow> fsnode \<Rightarrow> walk_state \<Rightarrow> abort action \<times> walk_state" where
  "syncWalkFn r w pm cfg cap path info st =
     (case info of
        Broken _ err \<Rightarrow> (Stop (Failed err), st)
      | _ \<Rightarrow>
          let fullpath = normalizePath path in
          if shouldExclude pm fullpath (excludePatterns cfg) then
            (if isDir info then (SkipDir, st) else (Next, st))
          else if \<not> recursive cfg \<and> path_Dir fullpath \<noteq> localPath cfg then
            (if isDir info then (SkipDir, st) else (Next, st))
          else if isDir info then (Next, st)
          else
            let relPath = normalizePath
                  (case filepath_Rel (localPath cfg) fullpath of None \<Rightarrow> [] | Some rel \<Rightarrow> rel);
                remoteKey = path_Join (remotePath cfg) relPath
            in
              (case needUpload w (sizeOnly cfg) fullpath (infoSize info)
                      (map_of (remoteFiles st) remoteKey) of
                 (evs, Inl err) \<Rightarrow> (Stop (Failed err), st\<lparr>trace := trace st @ evs\<rparr>)
               | (evs, Inr need) \<Rightarrow>
                   let st1 = st\<lparr>trace := trace st @ evs\<rparr> in
                   (case (if need then submitUpload r w (dryRun cfg) cap fullpath remoteKey st1
                          else (Next, st1)) of
                      (Next, st2) \<Rightarrow>
                        (Next, st2\<lparr>remoteFiles := AList.delete remoteKey (remoteFiles st2),
                                   trace := trace st2 @ [EvClaim remoteKey]\<rparr>)
                    | (SkipDir, st2) \<Rightarrow> (SkipDir, st2)
                    | (Stop e, st2) \<Rightarrow> (Stop e, st2))))"

text \<open>How a call of \<open>Sync\<close> ends: it returns (with an error or without), it panics, or it
  never returns.\<close>

datatype outcome = Returned "error option" | Panicked | Blocked

text \<open>The loop over the keys left in the map: each key takes a slot and starts its task.\<close>

fun deleteLoop :: "R2Client \<Rightarrow> world \<Rightarrow> bool \<Rightarrow> string list \<Rightarrow> event list" where
  "deleteLoop r w dry [] = []"
| "deleteLoop r w dry (remoteKey # keys) =
     [EvAcquire, EvGo (DeleteTask remoteKey)] @ deleteTask r w dry remoteKey @ deleteLoop r w dry keys"

text \<open>
  The delete phase, after the walk and \<open>wg.Wait()\<close>. Go ranges over a map in no fixed
  order; the model takes the keys in the order of the list that represents the map.
\<close>

definition deletePhase :: "R2Client \<Rightarrow> world \<Rightarrow> config \<Rightarrow> nat \<Rightarrow> walk_state \<Rightarrow> outcome \<times> event list" where
  "deletePhase r w cfg cap st =
     (let tr = trace st @ [EvLog (FilesUploaded (uploadCount st))] in
      if deleteSync cfg \<and> remoteFiles st \<noteq> [] then
        (if cap = 0 then (Blocked, tr @ [EvLog StartingDeletion])
         else
           (Returned None,
            tr @ [EvLog StartingDeletion] @
            deleteLoop r w (dryRun cfg) (map fst (remoteFiles st)) @
            [EvLog (FilesDeleted (length (remoteFiles st))), EvLog SyncCompleted]))
      else (Returned None, tr @ [EvLog SyncCompleted]))"

text \<open>
  \<open>Sync\<close>, on the local tree found at \<open>localPath\<close>. \<open>make(chan struct{}, concurrency)\<close>
  panics for a negative size.
\<close>

definition Sync :: "R2Client \<Rightarrow> world \<Rightarrow> matcher \<Rightarrow> fsnode \<Rightarrow> config \<Rightarrow> outcome \<times> event list" where
  "Sync r w pm tree cfg =
     (let tr0 = [EvLog (GettingRemoteList (remotePath cfg)), EvList (remotePath cfg)] in
      case ListObjects w (remotePath cfg) of
        Inl err \<Rightarrow> (Returned (Some (Wrapped ''failed to get remote file list'' err)), tr0)
      | Inr listed \<Rightarrow>
          if concurrency cfg < 0 then (Panicked, tr0)
          else
            let cap = nat (concurrency cfg) in
            (case filepath_Walk (syncWalkFn r w pm cfg cap) (localPath cfg) tree
                    \<lparr>remoteFiles = listed, uploadCount = 0, trace = tr0\<rparr> of
               (Some (Failed err), st) \<Rightarrow> (Returned (Some (Wrapped ''upload failed'' err)), trace st)
             | (Some Deadlock, st) \<Rightarrow> (Blocked, trace st)
             | (None, st) \<Rightarrow> deletePhase r w cfg cap st))"

text \<open>The decisions of a run, read off its events: the uploads and deletes it started,
  the keys it claimed, the files it hashed, and its calls that change the bucket.\<close>

fun uploadOf :: "event \<Rightarrow> (string \<times> string) list" where
  "uploadOf (EvGo (UploadTask localFile key)) = [(localFile, key)]"
| "uploadOf _ = []"

fun deleteOf :: "event \<Rightarrow> string list" where
  "deleteOf (EvGo (DeleteTask key)) = [key]"
| "deleteOf _ = []"

fun claimOf :: "event \<Rightarrow> string list" where
  "claimOf (EvClaim key) = [key]"
| "claimOf _ = []"

fun isMutation :: "event \<Rightarrow> bool" where
  "isMutation (EvPut _ _) = True"
| "isMutation (EvDelete _) = True"
| "isMutation _ = False"

fun isHash :: "event \<Rightarrow> bool" where
  "isHash (EvHash _) = True"
| "isHash _ = False"

definition uploads :: "event list \<Rightarrow> (string \<times> string) list" where
  "uploads tr = concat (map uploadOf tr)"

definition deletes :: "event list \<Rightarrow> string list" where
  "deletes tr = concat (map deleteOf tr)"

definition claims :: "event list \<Rightarrow> string list" where
  "claims tr = concat (map claimOf tr)"


section \<open>Reasoning about the walk\<close>

text \<open>
  A property \<open>Q\<close> of the callback's answer and the state is kept by the callback when
  it holds after every call that starts where \<open>Q Next\<close> holds. Two callbacks agree up to
  a relation \<open>R\<close> on their states when, started in related states, they give the same
  answer and related states.
\<close>

definition holds_after :: "('e action \<Rightarrow> 's \<Rightarrow> bool) \<Rightarrow> 'e action \<times> 's \<Rightarrow> bool" where
  "holds_after Q r = Q (fst r) (snd r)"

definition callback_keeps :: "('e action \<Rightarrow> 's \<Rightarrow> bool) \<Rightarrow> (string \<Rightarrow> fsnode \<Rightarrow> 's \<Rightarrow> 'e action \<times> 's) \<Rightarrow> bool" where
  "callback_keeps Q fn \<longleftrightarrow>
     (\<forall>path info s. Q Next s \<longrightarrow> holds_after Q (fn path info s)) \<and> (\<forall>s. Q SkipDir s \<longrightarrow> Q Next s)"

definition agree :: "('s \<Rightarrow> 't \<Rightarrow> bool) \<Rightarrow> 'e action \<times> 's \<Rightarrow> 'e action \<times> 't \<Rightarrow> bool" where
  "agree R r1 r2 \<longleftrightarrow> fst r1 = fst r2 \<and> R (snd r1) (snd r2)"

definition callbacks_agree :: "('s \<Rightarrow> 't \<Rightarrow> bool) \<Rightarrow> (string \<Rightarrow> fsnode \<Rightarrow> 's \<Rightarrow> 'e action \<times> 's) \<Rightarrow> (string \<Rightarrow> fsnode \<Rightarrow> 't \<Rightarrow> 'e action \<times> 't) \<Rightarrow> bool" where
  "callbacks_agree R fn1 fn2 \<longleftrightarrow>
     (\<forall>path info s1 s2. R s1 s2 \<longrightarrow> agree R (fn1 path info s1) (fn2 path info s2))"

text \<open>
  Two notions read off the callback: the remote key it computes for a path, and the
  entries it treats as candidates (regular files that pass the exclusion test and the
  test on the parent directory).
\<close>

definition remoteKeyOf :: "config \<Rightarrow> string \<Rightarrow> string" where
  "remoteKeyOf cfg path =
     path_Join (remotePath cfg)
       (normalizePath (case filepath_Rel (localPath cfg) (normalizePath path) of
                         None \<Rightarrow> [] | Some rel \<Rightarrow> rel))"

definition isCandidate :: "matcher \<Rightarrow> config \<Rightarrow> string \<Rightarrow> fsnode \<Rightarrow> bool" where
  "isCandidate pm cfg path info \<longleftrightarrow>
     isFile info \<and> \<not> shouldExclude pm (normalizePath path) (excludePatterns cfg) \<and>
     (recursive cfg \<or> path_Dir (normalizePath path) = localPath cfg)"


section \<open>Concrete inputs\<close>

text \<open>
  A small run: the directory \<open>/data\<close> holds \<open>a.txt\<close>, \<open>logs/x.log\<close> and
  \<open>sub/b.txt\<close>; the bucket holds, under \<open>prefix\<close>, copies of the first two and an
  object \<open>old.txt\<close> that has no local file. Every file hashes to \<open>h\<close>.
\<close>

definition ex_client :: R2Client where
  "ex_client = \<lparr>bucket = ''bkt'', scheme = ''r2''\<rparr>"

definition ex_tree :: fsnode where
  "ex_tree = Dir ''data'' [File ''a.txt'' 1, Dir ''logs'' [File ''x.log'' 7], Dir ''sub'' [File ''b.txt'' 2]]"

definition ex_etag :: string where
  "ex_etag = [CHR 0x22, CHR ''h'', CHR 0x22]"

definition ex_objects :: "FileInfo list" where
  "ex_objects =
     [\<lparr>Path = ''prefix/a.txt'', Size = 1, LastModified = 0, ETag = ex_etag\<rparr>,
      \<lparr>Path = ''prefix/logs/x.log'', Size = 7, LastModified = 0, ETag = ex_etag\<rparr>,
      \<lparr>Path = ''prefix/old.txt'', Size = 3, LastModified = 0, ETag = ex_etag\<rparr>]"

definition ex_world :: world where
  "ex_world =
     \<lparr>listing = Inr ex_objects, md5hex = (\<lambda>p. Inr ''h''),
      openErr = (\<lambda>p. None), putErr = (\<lambda>k. None), delErr = (\<lambda>k. None)\<rparr>"

definition ex_config :: config where
  "ex_config =
     \<lparr>localPath = ''/data'', remotePath = ''prefix'', deleteSync = True, dryRun = False,
      recursive = True, concurrency = 5, sizeOnly = False, excludePatterns = []\<rparr>"

text \<open>
  The events that record what a task's storage call did: the call itself and the log line
  that reports its result. The plan of a run is what is left of its events without them:
  the listing, the hashing, the claims, the admissions, the tasks started with the line
  that announces each, and the counts.
\<close>

fun isCallResult :: "event \<Rightarrow> bool" where
  "isCallResult (EvPut _ _) = True"
| "isCallResult (EvDelete _) = True"
| "isCallResult (EvLog (DryrunUpload _ _)) = True"
| "isCallResult (EvLog (UploadDone _ _)) = True"
| "isCallResult (EvLog (UploadFailed _ _)) = True"
| "isCallResult (EvLog (DryrunDelete _)) = True"
| "isCallResult (EvLog (DeleteDone _)) = True"
| "isCallResult (EvLog (DeleteFailed _ _)) = True"
| "isCallResult _ = False"

definition plan :: "event list \<Rightarrow> event list" where
  "plan tr = filter (\<lambda>e. \<not> isCallResult e) tr"

definition same_plan :: "walk_state \<Rightarrow> walk_state \<Rightarrow> bool" where
  "same_plan s1 s2 \<longleftrightarrow>
     remoteFiles s1 = remoteFiles s2 \<and> uploadCount s1 = uploadCount s2 \<and>
     plan (trace s1) = plan (trace s2)"

text \<open>The same world, except that no local file can be opened or read.\<close>

definition ex_unreadable :: world where
  "ex_unreadable =
     ex_world\<lparr>md5hex := (\<lambda>p. Inl (OSError ''permission denied'')),
              openErr := (\<lambda>p. Some (OSError ''permission denied''))\<rparr>"

text \<open>The paths a run has hashed, and the property that every one of them could be hashed.\<close>

fun hashOf :: "event \<Rightarrow> string list" where
  "hashOf (EvHash path) = [path]"
| "hashOf _ = []"

definition hashed :: "event list \<Rightarrow> string list" where
  "hashed tr = concat (map hashOf tr)"

definition hashes_ok :: "world \<Rightarrow> event list \<Rightarrow> bool" where
  "hashes_ok w tr \<longleftrightarrow> list_all (\<lambda>p. \<not> isl (calcETag w p)) (hashed tr)"

text \<open>
  What holds of the events during a walk: every file hashed so far could be hashed, unless
  the callback has just stopped the walk with the error of the last hash.
\<close>

definition hash_failure_last :: "world \<Rightarrow> abort action \<Rightarrow> walk_state \<Rightarrow> bool" where
  "hash_failure_last w a st \<longleftrightarrow>
     deletes (trace st) = [] \<and>
     (hashes_ok w (trace st) \<or>
      (\<exists>tr0 p err. a = Stop (Failed err) \<and> trace st = tr0 @ [EvHash p] \<and>
         hashes_ok w tr0 \<and> calcETag w p = Inl err))"

text \<open>The same world, except that \<open>/data/a.txt\<close> cannot be read.\<close>

definition ex_one_unreadable :: world where
  "ex_one_unreadable =
     ex_world\<lparr>md5hex := (\<lambda>p. if p = ''/data/a.txt'' then Inl (OSError ''permission denied'')
                             else Inr ''h'')\<rparr>"

text \<open>A world in which \<open>/data/a.txt\<close> cannot be read and its remote copy has another size.\<close>

definition ex_resized :: world where
  "ex_resized =
     ex_one_unreadable\<lparr>listing :=
       Inr [\<lparr>Path = ''prefix/a.txt'', Size = 9, LastModified = 0, ETag = ex_etag\<rparr>]\<rparr>"

text \<open>
  The tree without what lies beneath its excluded directories: a directory whose path the
  exclusion matcher accepts is emptied, every other entry is kept.
\<close>

fun prune :: "matcher \<Rightarrow> string list \<Rightarrow> string \<Rightarrow> fsnode \<Rightarrow> fsnode" where
  "prune pm patterns path (Dir name entries) =
     (if shouldExclude pm (normalizePath path) patterns then Dir name []
      else Dir name (map (\<lambda>e. prune pm patterns (filepath_Join path (nodeName e)) e) entries))"
| "prune pm patterns path (File name sz) = File name sz"
| "prune pm patterns path (Broken name err) = Broken name err"

section \<open>The program\<close>

text \<open>
  \<open>main\<close>, from the parsed command line on. The result of \<open>url.Parse\<close> and the error,
  if any, of loading the SDK configuration in \<open>NewR2Client\<close> are parameters. The process
  exits with a status, dies of a runtime panic, or never ends.
\<close>

record url =
  Scheme :: string
  Host :: string
  UrlPath :: string

record flags =
  flag_dryrun :: bool
  flag_delete :: bool
  flag_recursive :: bool
  flag_concurrency :: int
  flag_size_only :: bool
  flag_exclude :: "string list"
  flag_args :: "string list"

datatype exit = Exit nat | Crash | Hang

text \<open>\<open>strings.TrimPrefix(s, "/")\<close>.\<close>

definition trimSlash :: "string \<Rightarrow> string" where
  "trimSlash s = (case s of [] \<Rightarrow> [] | c # cs \<Rightarrow> if c = CHR ''/'' then cs else s)"

definition main :: "(string \<Rightarrow> error + url) \<Rightarrow> error option \<Rightarrow> world \<Rightarrow> matcher \<Rightarrow> fsnode \<Rightarrow> flags \<Rightarrow> exit \<times> event list" where
  "main urlParse configErr w pm tree fl =
     (case flag_args fl of
        [src, tgt] \<Rightarrow>
          let sourcePath = normalizePath src in
          (case urlParse (normalizePath tgt) of
             Inl err \<Rightarrow> (Exit 1, [EvLog (InvalidTarget err), EvLog Usage])
           | Inr u \<Rightarrow>
               let targetPath = trimSlash (UrlPath u);
                   patterns = map normalizePath (flag_exclude fl)
               in
                 (case configErr of
                    Some err \<Rightarrow> (Exit 1, [EvLog (Fatal err)])
                  | None \<Rightarrow>
                      (case Sync \<lparr>bucket = Host u, scheme = Scheme u\<rparr> w pm tree
                              \<lparr>localPath = sourcePath, remotePath = targetPath,
                               deleteSync = flag_delete fl, dryRun = flag_dryrun fl,
                               recursive = flag_recursive fl, concurrency = flag_concurrency fl,
                               sizeOnly = flag_size_only fl, excludePatterns = patterns\<rparr> of
                         (Returned None, tr) \<Rightarrow> (Exit 0, tr)
                       | (Returned (Some err), tr) \<Rightarrow> (Exit 1, tr @ [EvLog (Fatal err)])
                       | (Panicked, tr) \<Rightarrow> (Crash, tr)
                       | (Blocked, tr) \<Rightarrow> (Hang, tr))))
      | _ \<Rightarrow> (Exit 1, [EvLog Usage]))"

text \<open>A command line for the concrete run, and a parser that knows its target.\<close>

definition ex_urlParse :: "string \<Rightarrow> error + url" where
  "ex_urlParse s =
     (if s = ''r2://bkt/prefix'' then Inr \<lparr>Scheme = ''r2'', Host = ''bkt'', UrlPath = ''/prefix''\<rparr>
      else Inl (OSError ''parse error''))"

definition ex_flags :: flags where
  "ex_flags =
     \<lparr>flag_dryrun = False, flag_delete = True, flag_recursive = True, flag_concurrency = 5,
      flag_size_only = False, flag_exclude = [], flag_args = [''/data'', ''r2://bkt/prefix'']\<rparr>"

text \<open>The same world with an empty bucket.\<close>

definition ex_empty_bucket :: world where
  "ex_empty_bucket = ex_world\<lparr>listing := Inr []\<rparr>"

section \<open>The admission gate and the wait group\<close>

text \<open>
  The tasks of a phase run side by side with the goroutine that submits them. What they
  share is the channel \<open>semaphore\<close> and the wait group \<open>wg\<close>. A task goes through these
  stages: not yet reached by the submitter; \<open>wg.Add(1)\<close> done and the send on the channel
  pending; started and at work, holding a slot; \<open>UploadFile\<close> or \<open>DeleteObject\<close> has
  returned and a failure has been logged, the slot still held; the deferred receive has
  given the slot back; the deferred \<open>wg.Done()\<close> has run.
\<close>

datatype stage = Todo | Added | Working | Recorded | Released | Gone

text \<open>
  The state of a phase: the stage of every task, in the order of submission, the number of
  items in the channel, the counter of the wait group, and whether the submitter has left
  the phase.
\<close>

record gate =
  stages :: "stage list"
  slots :: nat
  wg :: nat
  returned :: bool

definition submitted :: "stage \<Rightarrow> bool" where
  "submitted x \<longleftrightarrow> x \<noteq> Todo \<and> x \<noteq> Added"

definition holdsSlot :: "stage \<Rightarrow> bool" where
  "holdsSlot x \<longleftrightarrow> x = Working \<or> x = Recorded"

definition counted :: "stage \<Rightarrow> bool" where
  "counted x \<longleftrightarrow> x = Added \<or> x = Working \<or> x = Recorded \<or> x = Released"

text \<open>
  One step of one goroutine. The submitter takes the tasks in order: \<open>Add i\<close> is
  \<open>wg.Add(1)\<close> for task \<open>i\<close>, \<open>Send i\<close> is the send on the channel, which needs a free
  place among the \<open>n\<close> of the buffer, followed by the \<open>go\<close> statement. \<open>Finish\<close>,
  \<open>Release\<close> and \<open>Done\<close> are the steps of task \<open>i\<close>; a receive needs an item in the
  channel and \<open>wg.Done()\<close> a positive counter. \<open>Return\<close> is the submitter leaving the
  phase after the last task: through \<open>wg.Wait()\<close>, which needs the counter at zero, or,
  when the walk has failed (\<open>failed\<close>), through the \<open>return\<close> that precedes
  \<open>wg.Wait()\<close>. A step that is not enabled gives \<open>None\<close>.
\<close>

datatype act = Add nat | Send nat | Finish nat | Release nat | Done nat | Return

fun fire :: "nat \<Rightarrow> bool \<Rightarrow> act \<Rightarrow> gate \<Rightarrow> gate option" where
  "fire n failed (Add i) g =
     (if i < length (stages g) \<and> stages g ! i = Todo \<and>
         list_all submitted (take i (stages g)) \<and> \<not> returned g
      then Some (g\<lparr>stages := (stages g)[i := Added], wg := wg g + 1\<rparr>) else None)"
| "fire n failed (Send i) g =
     (if i < length (stages g) \<and> stages g ! i = Added \<and> slots g < n
      then Some (g\<lparr>stages := (stages g)[i := Working], slots := slots g + 1\<rparr>) else None)"
| "fire n failed (Finish i) g =
     (if i < length (stages g) \<and> stages g ! i = Working
      then Some (g\<lparr>stages := (stages g)[i := Recorded]\<rparr>) else None)"
| "fire n failed (Release i) g =
     (if i < length (stages g) \<and> stages g ! i = Recorded \<and> 0 < slots g
      then Some (g\<lparr>stages := (stages g)[i := Released], slots := slots g - 1\<rparr>) else None)"
| "fire n failed (Done i) g =
     (if i < length (stages g) \<and> stages g ! i = Released \<and> 0 < wg g
      then Some (g\<lparr>stages := (stages g)[i := Gone], wg := wg g - 1\<rparr>) else None)"
| "fire n failed Return g =
     (if list_all submitted (stages g) \<and> \<not> returned g \<and> (failed \<or> wg g = 0)
      then Some (g\<lparr>returned := True\<rparr>) else None)"

text \<open>A schedule is a list of steps; it runs as long as its steps are enabled.\<close>

fun run :: "nat \<Rightarrow> bool \<Rightarrow> act list \<Rightarrow> gate \<Rightarrow> gate option" where
  "run n failed [] g = Some g"
| "run n failed (a # as) g =
     (case fire n failed a g of None \<Rightarrow> None | Some g' \<Rightarrow> run n failed as g')"

text \<open>A phase starts with every task still to do, the channel empty and the counter at zero.\<close>

definition start :: "task list \<Rightarrow> gate" where
  "start tasks = \<lparr>stages = map (\<lambda>t. Todo) tasks, slots = 0, wg = 0, returned = False\<rparr>"

text \<open>
  What every reachable state of a phase satisfies: the items in the channel are the tasks
  that hold a slot and are at most \<open>n\<close>; the counter counts the tasks between
  \<open>wg.Add\<close> and \<open>wg.Done\<close>; every task before one that the submitter has reached has
  been started; and after a return through \<open>wg.Wait()\<close> every task is through.
\<close>

definition gate_inv :: "nat \<Rightarrow> bool \<Rightarrow> gate \<Rightarrow> bool" where
  "gate_inv n failed g \<longleftrightarrow>
     slots g = length (filter holdsSlot (stages g)) \<and> slots g \<le> n \<and>
     wg g = length (filter counted (stages g)) \<and>
     (\<forall>i < length (stages g). stages g ! i \<noteq> Todo \<longrightarrow> list_all submitted (take i (stages g))) \<and>
     (returned g \<and> \<not> failed \<longrightarrow> list_all (\<lambda>x. x = Gone) (stages g))"

text \<open>A run in which a file read later in the walk cannot be hashed, after an upload.\<close>

definition ex_late_failure :: world where
  "ex_late_failure =
     ex_world\<lparr>listing := Inr [\<lparr>Path = ''prefix/logs/x.log'', Size = 7, LastModified = 0, ETag = ex_etag\<rparr>],
              md5hex := (\<lambda>p. Inl (OSError ''permission denied''))\<rparr>"

text \<open>
  The paths of the regular files of a tree, as the walk names them when it visits all of
  the tree that can be read.
\<close>

fun walkedFiles :: "string \<Rightarrow> fsnode \<Rightarrow> string list" where
  "walkedFiles path (File name sz) = [path]"
| "walkedFiles path (Dir name entries) =
     concat (map (\<lambda>e. walkedFiles (filepath_Join path (nodeName e)) e) entries)"
| "walkedFiles path (Broken name err) = []"

text \<open>
  The uploads and the claimed keys that the events \<open>tr'\<close> hold beyond those of \<open>tr\<close>
  are for files among \<open>paths\<close>.
\<close>

definition from_files :: "config \<Rightarrow> string list \<Rightarrow> event list \<Rightarrow> event list \<Rightarrow> bool" where
  "from_files cfg paths tr tr' \<longleftrightarrow>
     set (claims tr') \<subseteq> set (claims tr) \<union> remoteKeyOf cfg ` set paths \<and>
     set (uploads tr') \<subseteq> set (uploads tr) \<union> (\<lambda>p. (normalizePath p, remoteKeyOf cfg p)) ` set paths"

text \<open>
  How a walk through a gate without a slot compares with the same walk through a gate
  that has one: both give the same result, or the first has stopped, blocked, where the
  second took a slot for the first time since.
\<close>

definition blocked_before :: "abort action \<times> walk_state \<Rightarrow> abort action \<times> walk_state \<Rightarrow> bool" where
  "blocked_before r0 r1 \<longleftrightarrow>
     r0 = r1 \<or>
     (fst r0 = Stop Deadlock \<and> (\<exists>rest. trace (snd r1) = trace (snd r0) @ EvAcquire # rest))"

section \<open>Properties of the library models and of the walk\<close>

lemma normalizePath_idem: "normalizePath (normalizePath p) = normalizePath p"
  by (simp add: normalizePath_def)

lemma anyPart_iff: "anyPart pm pattern parts \<longleftrightarrow> (\<exists>part \<in> set parts. matches pm pattern part)"
  by (induction parts) auto

lemma shouldExclude_exists:
  "shouldExclude pm fullpath patterns \<longleftrightarrow>
     (\<exists>pattern \<in> set patterns.
        matches pm pattern fullpath \<or> (\<exists>part \<in> set (strings_Split fullpath). matches pm pattern part))"
  by (induction patterns) (auto simp: anyPart_iff)

lemma matches_err: "snd (pm pattern name) \<noteq> None \<Longrightarrow> \<not> matches pm pattern name"
  by (cases "pm pattern name") (simp add: matches_def)

lemma walkDir_post_aux:
  assumes keeps: "callback_keeps Q fn"
    and sub: "\<forall>e \<in> set es. \<forall>p s. Q Next s \<longrightarrow> holds_after Q (walk fn p e s)"
  shows "Q Next s \<Longrightarrow> holds_after Q (walkDir fn path es s)"
  using sub
proof (induction es arbitrary: s)
  case Nil
  then show ?case by (simp add: holds_after_def)
next
  case (Cons e es)
  obtain b s1 where f: "walk fn (filepath_Join path (nodeName e)) e s = (b, s1)"
    by (cases "walk fn (filepath_Join path (nodeName e)) e s")
  have "holds_after Q (walk fn (filepath_Join path (nodeName e)) e s)"
    using Cons.prems by simp
  then have q1: "Q b s1" using f by (simp add: holds_after_def)
  have ih: "Q Next s1 \<Longrightarrow> holds_after Q (walkDir fn path es s1)"
    using Cons.IH[of s1] Cons.prems(2) by simp
  have skip: "Q SkipDir s1 \<Longrightarrow> Q Next s1" using keeps by (simp add: callback_keeps_def)
  show ?case
  proof (cases b)
    case Next
    with f q1 ih show ?thesis by simp
  next
    case SkipDir
    with f q1 ih skip show ?thesis by (cases "isFile e") (auto simp: holds_after_def)
  next
    case (Stop x)
    with f q1 show ?thesis by (simp add: holds_after_def)
  qed
qed

lemma walk_post:
  assumes keeps: "callback_keeps Q fn"
  shows "Q Next s \<Longrightarrow> holds_after Q (walk fn path t s)"
proof (induction t arbitrary: path s)
  case (File name sz)
  then show ?case using keeps by (simp add: callback_keeps_def)
next
  case (Dir name entries)
  obtain b s1 where f: "fn path (Dir name entries) s = (b, s1)"
    by (cases "fn path (Dir name entries) s")
  have "holds_after Q (fn path (Dir name entries) s)"
    using keeps Dir.prems by (simp add: callback_keeps_def)
  then have q1: "Q b s1" using f by (simp add: holds_after_def)
  have sub: "\<forall>e \<in> set entries. \<forall>p s. Q Next s \<longrightarrow> holds_after Q (walk fn p e s)"
    using Dir.IH by blast
  show ?case
  proof (cases b)
    case Next
    with f q1 walkDir_post_aux[OF keeps sub, of s1 path] show ?thesis by simp
  next
    case SkipDir
    with f q1 show ?thesis by (simp add: holds_after_def)
  next
    case (Stop x)
    with f q1 show ?thesis by (simp add: holds_after_def)
  qed
next
  case (Broken name err)
  then show ?case using keeps by (simp add: callback_keeps_def)
qed

lemma filepath_Walk_post:
  assumes keeps: "callback_keeps Q fn" and start: "Q Next s"
    and run: "filepath_Walk fn root t s = (res, s')"
  shows "case res of None \<Rightarrow> Q Next s' | Some e \<Rightarrow> Q (Stop e) s'"
proof -
  obtain b s1 where f: "walk fn root t s = (b, s1)" by (cases "walk fn root t s")
  have "Q b s1" using walk_post[OF keeps start, of root t] f by (simp add: holds_after_def)
  moreover have "Q SkipDir s1 \<Longrightarrow> Q Next s1" using keeps by (simp add: callback_keeps_def)
  ultimately show ?thesis using f run
    by (cases b) (auto simp: filepath_Walk_def)
qed

lemma walkDir_agree_aux:
  assumes sub: "\<forall>e \<in> set es. \<forall>p s1 s2. R s1 s2 \<longrightarrow> agree R (walk fn1 p e s1) (walk fn2 p e s2)"
  shows "R s1 s2 \<Longrightarrow> agree R (walkDir fn1 path es s1) (walkDir fn2 path es s2)"
  using sub
proof (induction es arbitrary: s1 s2)
  case Nil
  then show ?case by (simp add: agree_def)
next
  case (Cons e es)
  let ?p = "filepath_Join path (nodeName e)"
  obtain b t1 where f1: "walk fn1 ?p e s1 = (b, t1)" by (cases "walk fn1 ?p e s1")
  obtain c t2 where f2: "walk fn2 ?p e s2 = (c, t2)" by (cases "walk fn2 ?p e s2")
  have "agree R (walk fn1 ?p e s1) (walk fn2 ?p e s2)" using Cons.prems by simp
  then have bc: "c = b" and r: "R t1 t2" using f1 f2 by (simp_all add: agree_def)
  have ih: "agree R (walkDir fn1 path es t1) (walkDir fn2 path es t2)"
    using Cons.IH[OF r] Cons.prems(2) by simp
  show ?case
  proof (cases b)
    case Next
    with f1 f2 bc ih show ?thesis by simp
  next
    case SkipDir
    with f1 f2 bc ih r show ?thesis by (cases "isFile e") (auto simp: agree_def)
  next
    case (Stop x)
    with f1 f2 bc r show ?thesis by (simp add: agree_def)
  qed
qed

lemma walk_agree:
  assumes cb: "callbacks_agree R fn1 fn2"
  shows "R s1 s2 \<Longrightarrow> agree R (walk fn1 path t s1) (walk fn2 path t s2)"
proof (induction t arbitrary: path s1 s2)
  case (File name sz)
  then show ?case using cb by (simp add: callbacks_agree_def)
next
  case (Dir name entries)
  let ?d = "Dir name entries"
  obtain b t1 where f1: "fn1 path ?d s1 = (b, t1)" by (cases "fn1 path ?d s1")
  obtain c t2 where f2: "fn2 path ?d s2 = (c, t2)" by (cases "fn2 path ?d s2")
  have "agree R (fn1 path ?d s1) (fn2 path ?d s2)"
    using cb Dir.prems by (simp add: callbacks_agree_def)
  then have bc: "c = b" and r: "R t1 t2" using f1 f2 by (simp_all add: agree_def)
  have sub: "\<forall>e \<in> set entries. \<forall>p s1 s2. R s1 s2 \<longrightarrow> agree R (walk fn1 p e s1) (walk fn2 p e s2)"
    using Dir.IH by blast
  show ?case
  proof (cases b)
    case Next
    with f1 f2 bc walkDir_agree_aux[OF sub r, of path] show ?thesis by simp
  next
    case SkipDir
    with f1 f2 bc r show ?thesis by (simp add: agree_def)
  next
    case (Stop x)
    with f1 f2 bc r show ?thesis by (simp add: agree_def)
  qed
next
  case (Broken name err)
  then show ?case using cb by (simp add: callbacks_agree_def)
qed

lemma filepath_Walk_agree:
  assumes cb: "callbacks_agree R fn1 fn2" and r: "R s1 s2"
  shows "fst (filepath_Walk fn1 root t s1) = fst (filepath_Walk fn2 root t s2) \<and>
         R (snd (filepath_Walk fn1 root t s1)) (snd (filepath_Walk fn2 root t s2))"
proof -
  obtain b t1 where f1: "walk fn1 root t s1 = (b, t1)" by (cases "walk fn1 root t s1")
  obtain c t2 where f2: "walk fn2 root t s2 = (c, t2)" by (cases "walk fn2 root t s2")
  have "agree R (walk fn1 root t s1) (walk fn2 root t s2)" using walk_agree[OF cb r] .
  then have "c = b" and "R t1 t2" using f1 f2 by (simp_all add: agree_def)
  then show ?thesis using f1 f2 by (cases b) (simp_all add: filepath_Walk_def)
qed


lemma uploads_append [simp]: "uploads (xs @ ys) = uploads xs @ uploads ys"
  by (simp add: uploads_def)
lemma deletes_append [simp]: "deletes (xs @ ys) = deletes xs @ deletes ys"
  by (simp add: deletes_def)
lemma claims_append [simp]: "claims (xs @ ys) = claims xs @ claims ys"
  by (simp add: claims_def)
lemma uploads_Nil [simp]: "uploads [] = []" by (simp add: uploads_def)
lemma deletes_Nil [simp]: "deletes [] = []" by (simp add: deletes_def)
lemma claims_Nil [simp]: "claims [] = []" by (simp add: claims_def)
lemma uploads_Cons [simp]: "uploads (e # tr) = uploadOf e @ uploads tr" by (simp add: uploads_def)
lemma deletes_Cons [simp]: "deletes (e # tr) = deleteOf e @ deletes tr" by (simp add: deletes_def)
lemma claims_Cons [simp]: "claims (e # tr) = claimOf e @ claims tr" by (simp add: claims_def)

lemma uploadTask_decisions [simp]:
  "uploads (uploadTask r w dry f k) = []"
  "deletes (uploadTask r w dry f k) = []"
  "claims (uploadTask r w dry f k) = []"
  by (simp_all add: uploadTask_def UploadFile_def Let_def split: option.splits)

lemma deleteTask_decisions [simp]:
  "uploads (deleteTask r w dry k) = []"
  "deletes (deleteTask r w dry k) = []"
  "claims (deleteTask r w dry k) = []"
  by (simp_all add: deleteTask_def DeleteObject_def Let_def split: option.splits)

lemma needUpload_decisions:
  "needUpload w so p sz ri = (evs, res) \<Longrightarrow> uploads evs = [] \<and> deletes evs = [] \<and> claims evs = []"
  by (auto simp: needUpload_def split: option.splits if_splits sum.splits)

lemma deleteLoop_decisions [simp]:
  "deletes (deleteLoop r w dry keys) = keys"
  "uploads (deleteLoop r w dry keys) = []"
  "claims (deleteLoop r w dry keys) = []"
  by (induction keys) simp_all

lemma syncWalkFn_not_candidate:
  "\<not> isCandidate pm cfg path info \<Longrightarrow>
   syncWalkFn r w pm cfg cap path info st =
     (case info of Broken _ err \<Rightarrow> (Stop (Failed err), st)
      | Dir _ _ \<Rightarrow> (if shouldExclude pm (normalizePath path) (excludePatterns cfg) \<or>
                       (\<not> recursive cfg \<and> path_Dir (normalizePath path) \<noteq> localPath cfg)
                    then (SkipDir, st) else (Next, st))
      | File _ _ \<Rightarrow> (Next, st))"
  by (cases info) (auto simp: syncWalkFn_def isCandidate_def Let_def)

lemma syncWalkFn_candidate:
  "isCandidate pm cfg path info \<Longrightarrow>
   syncWalkFn r w pm cfg cap path info st =
     (let fullpath = normalizePath path; remoteKey = remoteKeyOf cfg path in
      case needUpload w (sizeOnly cfg) fullpath (infoSize info) (map_of (remoteFiles st) remoteKey) of
        (evs, Inl err) \<Rightarrow> (Stop (Failed err), st\<lparr>trace := trace st @ evs\<rparr>)
      | (evs, Inr need) \<Rightarrow>
          if need \<and> cap = 0 then (Stop Deadlock, st\<lparr>trace := trace st @ evs, uploadCount := uploadCount st + 1\<rparr>)
          else
            (Next, st\<lparr>remoteFiles := AList.delete remoteKey (remoteFiles st),
                      uploadCount := (if need then uploadCount st + 1 else uploadCount st),
                      trace := trace st @ evs @
                         (if need then [EvAcquire, EvGo (UploadTask fullpath remoteKey)] @
                                       uploadTask r w (dryRun cfg) fullpath remoteKey else []) @
                         [EvClaim remoteKey]\<rparr>))"
  by (cases info)
     (auto simp: syncWalkFn_def isCandidate_def remoteKeyOf_def submitUpload_def Let_def
           split: prod.splits sum.splits)





lemma plan_append [simp]: "plan (xs @ ys) = plan xs @ plan ys"
  by (simp add: plan_def)

lemma plan_Cons [simp]: "plan (e # tr) = (if isCallResult e then plan tr else e # plan tr)"
  by (simp add: plan_def)

lemma plan_Nil [simp]: "plan [] = []"
  by (simp add: plan_def)

lemma uploads_plan: "uploads (plan tr) = uploads tr"
proof (induction tr)
  case Nil
  show ?case by simp
next
  case (Cons e tr)
  then show ?case by (cases e rule: isCallResult.cases) simp_all
qed

lemma deletes_plan: "deletes (plan tr) = deletes tr"
proof (induction tr)
  case Nil
  show ?case by simp
next
  case (Cons e tr)
  then show ?case by (cases e rule: isCallResult.cases) simp_all
qed

lemma plan_uploadTask [simp]:
  "plan (uploadTask r w dry f k) = [EvLog (Uploading f (RemotePath r k)), EvRelease]"
  by (simp add: uploadTask_def UploadFile_def Let_def split: option.splits)

lemma plan_deleteTask [simp]:
  "plan (deleteTask r w dry k) = [EvLog (Deleting (RemotePath r k)), EvRelease]"
  by (simp add: deleteTask_def DeleteObject_def Let_def split: option.splits)

lemma plan_deleteLoop_eq:
  "plan (deleteLoop r w dry keys) = plan (deleteLoop r w' dry' keys)"
  by (induction keys) simp_all

lemma isCandidate_dryRun [simp]: "isCandidate pm (cfg\<lparr>dryRun := d\<rparr>) = isCandidate pm cfg"
  by (simp add: isCandidate_def fun_eq_iff)

lemma remoteKeyOf_dryRun [simp]: "remoteKeyOf (cfg\<lparr>dryRun := d\<rparr>) = remoteKeyOf cfg"
  by (simp add: remoteKeyOf_def fun_eq_iff)

lemma needUpload_world:
  "szOnly \<or> md5hex w2 = md5hex w1 \<Longrightarrow> needUpload w2 szOnly p sz ri = needUpload w1 szOnly p sz ri"
  by (auto simp: needUpload_def calcETag_def split: option.splits)

lemma needUpload_plan:
  "needUpload w so p sz ri = (evs, res) \<Longrightarrow> plan evs = evs"
  by (auto simp: needUpload_def split: option.splits if_splits sum.splits)

lemma syncWalkFn_plan_agree:
  assumes w: "sizeOnly cfg \<or> md5hex w2 = md5hex w1"
  shows "callbacks_agree same_plan (syncWalkFn r w1 pm cfg cap) (syncWalkFn r w2 pm (cfg\<lparr>dryRun := d\<rparr>) cap)"
  unfolding callbacks_agree_def
proof (intro allI impI)
  fix path info s1 s2
  assume r: "same_plan s1 s2"
  show "agree same_plan (syncWalkFn r w1 pm cfg cap path info s1)
          (syncWalkFn r w2 pm (cfg\<lparr>dryRun := d\<rparr>) cap path info s2)"
  proof (cases "isCandidate pm cfg path info")
    case False
    then show ?thesis using r
      by (simp add: syncWalkFn_not_candidate agree_def split: fsnode.splits)
  next
    case True
    obtain evs res where n: "needUpload w1 (sizeOnly cfg) (normalizePath path) (infoSize info)
        (map_of (remoteFiles s1) (remoteKeyOf cfg path)) = (evs, res)"
      by (cases "needUpload w1 (sizeOnly cfg) (normalizePath path) (infoSize info)
        (map_of (remoteFiles s1) (remoteKeyOf cfg path))")
    have n2: "needUpload w2 (sizeOnly cfg) (normalizePath path) (infoSize info)
        (map_of (remoteFiles s2) (remoteKeyOf cfg path)) = (evs, res)"
      using n r needUpload_world[OF w] by (simp add: same_plan_def)
    have p: "plan evs = evs" using needUpload_plan[OF n] .
    have c2: "isCandidate pm (cfg\<lparr>dryRun := d\<rparr>) path info" using True by simp
    have rf: "remoteFiles s1 = remoteFiles s2" using r by (simp add: same_plan_def)
    have n1: "needUpload w1 (sizeOnly cfg) (normalizePath path) (infoSize info)
        (map_of (remoteFiles s2) (remoteKeyOf cfg path)) = (evs, res)"
      using n rf by simp
    show ?thesis using r p
      by (cases res)
         (auto simp: syncWalkFn_candidate[OF True] syncWalkFn_candidate[OF c2] n1 n2 Let_def
            agree_def same_plan_def)
  qed
qed

lemma deletePhase_plan_agree:
  assumes r: "same_plan s1 s2"
  shows "fst (deletePhase r w1 cfg cap s1) = fst (deletePhase r w2 (cfg\<lparr>dryRun := d\<rparr>) cap s2) \<and>
         plan (snd (deletePhase r w1 cfg cap s1)) = plan (snd (deletePhase r w2 (cfg\<lparr>dryRun := d\<rparr>) cap s2))"
  using r plan_deleteLoop_eq[of r w1 "dryRun cfg" "map fst (remoteFiles s2)" w2 d]
  by (simp add: deletePhase_def Let_def same_plan_def)

lemma Sync_plan_agree:
  assumes w: "sizeOnly cfg \<or> md5hex w2 = md5hex w1" and l: "listing w2 = listing w1"
  shows "fst (Sync r w1 pm tree cfg) = fst (Sync r w2 pm tree (cfg\<lparr>dryRun := d\<rparr>)) \<and>
         plan (snd (Sync r w1 pm tree cfg)) = plan (snd (Sync r w2 pm tree (cfg\<lparr>dryRun := d\<rparr>)))"
proof -
  have lo: "ListObjects w2 (remotePath cfg) = ListObjects w1 (remotePath cfg)"
    using l by (simp add: ListObjects_def)
  show ?thesis
  proof (cases "ListObjects w1 (remotePath cfg)")
    case (Inl err)
    then show ?thesis using lo by (simp add: Sync_def)
  next
    case (Inr listed)
    show ?thesis
    proof (cases "concurrency cfg < 0")
      case True
      then show ?thesis using lo Inr by (simp add: Sync_def)
    next
      case False
      let ?cap = "nat (concurrency cfg)"
      let ?s0 = "\<lparr>remoteFiles = listed, uploadCount = 0,
                   trace = [EvLog (GettingRemoteList (remotePath cfg)), EvList (remotePath cfg)]\<rparr>"
      let ?k1 = "filepath_Walk (syncWalkFn r w1 pm cfg ?cap) (localPath cfg) tree ?s0"
      let ?k2 = "filepath_Walk (syncWalkFn r w2 pm (cfg\<lparr>dryRun := d\<rparr>) ?cap) (localPath cfg) tree ?s0"
      have s0: "same_plan ?s0 ?s0" by (simp add: same_plan_def)
      from filepath_Walk_agree[OF syncWalkFn_plan_agree[OF w] s0]
      have ag: "fst ?k1 = fst ?k2" "same_plan (snd ?k1) (snd ?k2)" by blast+
      obtain res st1 where k1: "?k1 = (res, st1)" by (cases ?k1)
      obtain st2 where k2: "?k2 = (res, st2)" using ag(1) k1 by (cases ?k2) simp
      have sp: "same_plan st1 st2" using ag(2) k1 k2 by simp
      show ?thesis
      proof (cases res)
        case None
        then show ?thesis
          using deletePhase_plan_agree[OF sp, of r w1 cfg ?cap w2 d] lo Inr False k1 k2
          by (simp add: Sync_def)
      next
        case (Some ab)
        then show ?thesis using sp lo Inr False k1 k2
          by (cases ab) (simp_all add: Sync_def same_plan_def)
      qed
    qed
  qed
qed

lemma no_mutation_uploadTask [simp]: "filter isMutation (uploadTask r w True f k) = []"
  by (simp add: uploadTask_def UploadFile_def Let_def)

lemma no_mutation_deleteLoop [simp]: "filter isMutation (deleteLoop r w True keys) = []"
  by (induction keys) (simp_all add: deleteTask_def DeleteObject_def Let_def)

lemma needUpload_events:
  "needUpload w so p sz ri = (evs, res) \<Longrightarrow> evs = [] \<or> (\<not> so \<and> evs = [EvHash p])"
  by (auto simp: needUpload_def split: option.splits if_splits sum.splits)

lemma syncWalkFn_dry_no_mutation:
  assumes dry: "dryRun cfg"
  shows "callback_keeps (\<lambda>a st. filter isMutation (trace st) = []) (syncWalkFn r w pm cfg cap)"
  unfolding callback_keeps_def holds_after_def
proof (intro conjI allI impI)
  fix path info and s :: walk_state
  assume inv: "filter isMutation (trace s) = []"
  show "filter isMutation (trace (snd (syncWalkFn r w pm cfg cap path info s))) = []"
  proof (cases "isCandidate pm cfg path info")
    case False
    then show ?thesis using inv
      by (simp add: syncWalkFn_not_candidate split: fsnode.splits)
  next
    case True
    obtain evs res where n: "needUpload w (sizeOnly cfg) (normalizePath path) (infoSize info)
        (map_of (remoteFiles s) (remoteKeyOf cfg path)) = (evs, res)"
      by (cases "needUpload w (sizeOnly cfg) (normalizePath path) (infoSize info)
        (map_of (remoteFiles s) (remoteKeyOf cfg path))")
    from needUpload_events[OF n] have e: "filter isMutation evs = []" by auto
    show ?thesis using inv e dry
      by (cases res) (auto simp: syncWalkFn_candidate[OF True] n Let_def)
  qed
qed simp

lemma no_hash_uploadTask [simp]: "filter isHash (uploadTask r w dry f k) = []"
  by (simp add: uploadTask_def UploadFile_def Let_def split: option.splits)

lemma no_hash_deleteLoop [simp]: "filter isHash (deleteLoop r w dry keys) = []"
  by (induction keys) (simp_all add: deleteTask_def DeleteObject_def Let_def split: option.splits)

lemma syncWalkFn_sizeOnly_no_hash:
  assumes so: "sizeOnly cfg"
  shows "callback_keeps (\<lambda>a st. filter isHash (trace st) = []) (syncWalkFn r w pm cfg cap)"
  unfolding callback_keeps_def holds_after_def
proof (intro conjI allI impI)
  fix path info and s :: walk_state
  assume inv: "filter isHash (trace s) = []"
  show "filter isHash (trace (snd (syncWalkFn r w pm cfg cap path info s))) = []"
  proof (cases "isCandidate pm cfg path info")
    case False
    then show ?thesis using inv
      by (simp add: syncWalkFn_not_candidate split: fsnode.splits)
  next
    case True
    obtain evs res where n: "needUpload w (sizeOnly cfg) (normalizePath path) (infoSize info)
        (map_of (remoteFiles s) (remoteKeyOf cfg path)) = (evs, res)"
      by (cases "needUpload w (sizeOnly cfg) (normalizePath path) (infoSize info)
        (map_of (remoteFiles s) (remoteKeyOf cfg path))")
    from needUpload_events[OF n] so have e: "evs = []" by auto
    show ?thesis using inv e
      by (cases res) (auto simp: syncWalkFn_candidate[OF True] n Let_def)
  qed
qed simp

lemma Sync_trace_invariant:
  assumes keeps: "callback_keeps (\<lambda>a st. P (trace st)) (syncWalkFn r w pm cfg (nat (concurrency cfg)))"
    and start: "P [EvLog (GettingRemoteList (remotePath cfg)), EvList (remotePath cfg)]"
    and phase: "\<And>st. P (trace st) \<Longrightarrow> P (snd (deletePhase r w cfg (nat (concurrency cfg)) st))"
  shows "P (snd (Sync r w pm tree cfg))"
proof (cases "ListObjects w (remotePath cfg)")
  case (Inl err)
  then show ?thesis using start by (simp add: Sync_def)
next
  case (Inr listed)
  show ?thesis
  proof (cases "concurrency cfg < 0")
    case True
    then show ?thesis using Inr start by (simp add: Sync_def)
  next
    case False
    let ?cap = "nat (concurrency cfg)"
    let ?s0 = "\<lparr>remoteFiles = listed, uploadCount = 0,
                 trace = [EvLog (GettingRemoteList (remotePath cfg)), EvList (remotePath cfg)]\<rparr>"
    obtain res st where wk: "filepath_Walk (syncWalkFn r w pm cfg ?cap) (localPath cfg) tree ?s0 = (res, st)"
      by (cases "filepath_Walk (syncWalkFn r w pm cfg ?cap) (localPath cfg) tree ?s0")
    have "P (trace ?s0)" using start by simp
    from filepath_Walk_post[OF keeps this wk]
    have inv: "P (trace st)" by (simp split: option.splits)
    show ?thesis
    proof (cases res)
      case None
      then show ?thesis using phase[OF inv] Inr False wk by (simp add: Sync_def)
    next
      case (Some ab)
      then show ?thesis using inv Inr False wk by (cases ab) (simp_all add: Sync_def)
    qed
  qed
qed

lemma hashed_append [simp]: "hashed (xs @ ys) = hashed xs @ hashed ys"
  by (simp add: hashed_def)
lemma hashed_Nil [simp]: "hashed [] = []"
  by (simp add: hashed_def)
lemma hashed_Cons [simp]: "hashed (e # tr) = hashOf e @ hashed tr"
  by (simp add: hashed_def)

lemma hashed_uploadTask [simp]: "hashed (uploadTask r w dry f k) = []"
  by (simp add: uploadTask_def UploadFile_def Let_def split: option.splits)

lemma hashed_deleteLoop [simp]: "hashed (deleteLoop r w dry keys) = []"
  by (induction keys) (simp_all add: deleteTask_def DeleteObject_def Let_def split: option.splits)

lemma hashes_ok_append [simp]: "hashes_ok w (xs @ ys) \<longleftrightarrow> hashes_ok w xs \<and> hashes_ok w ys"
  by (simp add: hashes_ok_def)

lemma hashes_ok_Nil [simp]: "hashes_ok w []"
  by (simp add: hashes_ok_def)

lemma hashes_ok_Cons [simp]:
  "hashes_ok w (e # tr) \<longleftrightarrow> (\<forall>p \<in> set (hashOf e). \<not> isl (calcETag w p)) \<and> hashes_ok w tr"
  by (auto simp: hashes_ok_def list_all_iff)

lemma hashes_ok_uploadTask [simp]: "hashes_ok w (uploadTask r w' dry f k)"
  by (simp add: hashes_ok_def)

lemma hashes_ok_deleteLoop [simp]: "hashes_ok w (deleteLoop r w' dry keys)"
  by (simp add: hashes_ok_def)

lemma needUpload_hash:
  "needUpload w so p sz ri = (evs, res) \<Longrightarrow>
     (evs = [] \<and> (\<exists>need. res = Inr need)) \<or>
     (evs = [EvHash p] \<and> (\<exists>ri'. ri = Some ri') \<and> \<not> so \<and>
        (case calcETag w p of Inl err \<Rightarrow> res = Inl err | Inr etag \<Rightarrow> (\<exists>need. res = Inr need)))"
  by (auto simp: needUpload_def split: option.splits if_splits sum.splits)

lemma syncWalkFn_hash_failure_last:
  "callback_keeps (hash_failure_last w) (syncWalkFn r w pm cfg cap)"
  unfolding callback_keeps_def holds_after_def
proof (intro conjI allI impI)
  fix path info and s :: walk_state
  assume "hash_failure_last w Next s"
  then have inv: "deletes (trace s) = []" "hashes_ok w (trace s)"
    by (auto simp: hash_failure_last_def)
  let ?res = "syncWalkFn r w pm cfg cap path info s"
  show "hash_failure_last w (fst ?res) (snd ?res)"
  proof (cases "isCandidate pm cfg path info")
    case False
    then show ?thesis using inv
      by (simp add: syncWalkFn_not_candidate hash_failure_last_def split: fsnode.splits)
  next
    case True
    let ?p = "normalizePath path"
    obtain evs res where n: "needUpload w (sizeOnly cfg) ?p (infoSize info)
        (map_of (remoteFiles s) (remoteKeyOf cfg path)) = (evs, res)"
      by (cases "needUpload w (sizeOnly cfg) ?p (infoSize info)
        (map_of (remoteFiles s) (remoteKeyOf cfg path))")
    from needUpload_decisions[OF n] have d: "deletes evs = []" by simp
    from needUpload_hash[OF n]
    show ?thesis
    proof (elim disjE conjE exE)
      fix need assume "evs = []" "res = Inr need"
      then show ?thesis using inv
        by (auto simp: syncWalkFn_candidate[OF True] n Let_def hash_failure_last_def)
    next
      fix ri' assume e: "evs = [EvHash ?p]"
        and c: "case calcETag w ?p of Inl err \<Rightarrow> res = Inl err | Inr etag \<Rightarrow> (\<exists>need. res = Inr need)"
      show ?thesis
      proof (cases "calcETag w ?p")
        case (Inl err)
        then have "res = Inl err" using c by simp
        then show ?thesis using inv e Inl
          by (simp add: syncWalkFn_candidate[OF True] n Let_def hash_failure_last_def)
      next
        case (Inr etag)
        then obtain need where "res = Inr need" using c by auto
        moreover have "hashes_ok w evs" using e Inr by (simp add: hashes_ok_def)
        ultimately show ?thesis using inv e
          by (auto simp: syncWalkFn_candidate[OF True] n Let_def hash_failure_last_def hashes_ok_def)
      qed
    qed
  qed
next
  fix s :: walk_state
  assume "hash_failure_last w SkipDir s"
  then show "hash_failure_last w Next s" by (simp add: hash_failure_last_def)
qed

lemma hashed_deletePhase: "hashed (snd (deletePhase r w cfg cap st)) = hashed (trace st)"
  by (simp add: deletePhase_def Let_def)

lemma Sync_hash_failure:
  assumes p: "p \<in> set (hashed (snd (Sync r w pm tree cfg)))" and err: "calcETag w p = Inl err"
  shows "fst (Sync r w pm tree cfg) = Returned (Some (Wrapped ''upload failed'' err)) \<and>
         last (snd (Sync r w pm tree cfg)) = EvHash p \<and>
         deletes (snd (Sync r w pm tree cfg)) = []"
proof (cases "ListObjects w (remotePath cfg)")
  case (Inl e)
  then show ?thesis using p by (simp add: Sync_def)
next
  case (Inr listed)
  show ?thesis
  proof (cases "concurrency cfg < 0")
    case True
    then show ?thesis using p Inr by (simp add: Sync_def)
  next
    case False
    let ?cap = "nat (concurrency cfg)"
    let ?s0 = "\<lparr>remoteFiles = listed, uploadCount = 0,
                 trace = [EvLog (GettingRemoteList (remotePath cfg)), EvList (remotePath cfg)]\<rparr>"
    obtain res st where wk: "filepath_Walk (syncWalkFn r w pm cfg ?cap) (localPath cfg) tree ?s0 = (res, st)"
      by (cases "filepath_Walk (syncWalkFn r w pm cfg ?cap) (localPath cfg) tree ?s0")
    have s0: "hash_failure_last w Next ?s0" by (simp add: hash_failure_last_def)
    note post = filepath_Walk_post[OF syncWalkFn_hash_failure_last s0 wk]
    have bad: "\<not> hashes_ok w tr" if "p \<in> set (hashed tr)" for tr
    proof -
      have "isl (calcETag w p)" using err by simp
      with that show ?thesis by (auto simp: hashes_ok_def list_all_iff)
    qed
    show ?thesis
    proof (cases res)
      case None
      then have tr: "snd (Sync r w pm tree cfg) = snd (deletePhase r w cfg ?cap st)"
        using Inr False wk by (simp add: Sync_def)
      have "p \<in> set (hashed (trace st))" using p tr by (simp add: hashed_deletePhase)
      from bad[OF this] post None show ?thesis by (simp add: hash_failure_last_def)
    next
      case (Some ab)
      show ?thesis
      proof (cases ab)
        case Deadlock
        then have tr: "snd (Sync r w pm tree cfg) = trace st"
          using Inr False wk Some by (simp add: Sync_def)
        from bad[of "trace st"] p tr post Some Deadlock show ?thesis
          by (simp add: hash_failure_last_def)
      next
        case (Failed e)
        then have run: "Sync r w pm tree cfg = (Returned (Some (Wrapped ''upload failed'' e)), trace st)"
          using Inr False wk Some by (simp add: Sync_def)
        have pin: "p \<in> set (hashed (trace st))" using p run by simp
        from post Some Failed bad[OF pin]
        obtain tr0 p' where t: "trace st = tr0 @ [EvHash p']" "hashes_ok w tr0" "calcETag w p' = Inl e"
          and d: "deletes (trace st) = []"
          by (auto simp: hash_failure_last_def)
        have "p \<notin> set (hashed tr0)" using bad[of tr0] t(2) by blast
        then have "p = p'" using pin t(1) by simp
        then show ?thesis using run t d err by simp
      qed
    qed
  qed
qed

lemma nodeName_prune [simp]: "nodeName (prune pm pats path t) = nodeName t"
  by (cases t) simp_all

lemma isFile_prune [simp]: "isFile (prune pm pats path t) = isFile t"
  by (cases t) simp_all

lemma syncWalkFn_Dir:
  "syncWalkFn r w pm cfg cap path (Dir name entries) st =
     (if shouldExclude pm (normalizePath path) (excludePatterns cfg) \<or>
         (\<not> recursive cfg \<and> path_Dir (normalizePath path) \<noteq> localPath cfg)
      then (SkipDir, st) else (Next, st))"
  by (simp add: syncWalkFn_def Let_def)






lemma syncWalkFn_appends:
  "\<exists>evs. trace (snd (syncWalkFn r w pm cfg cap path info st)) = trace st @ evs"
proof (cases "isCandidate pm cfg path info")
  case False
  then show ?thesis by (simp add: syncWalkFn_not_candidate split: fsnode.splits)
next
  case True
  obtain evs res where n: "needUpload w (sizeOnly cfg) (normalizePath path) (infoSize info)
      (map_of (remoteFiles st) (remoteKeyOf cfg path)) = (evs, res)"
    by (cases "needUpload w (sizeOnly cfg) (normalizePath path) (infoSize info)
      (map_of (remoteFiles st) (remoteKeyOf cfg path))")
  show ?thesis
    by (cases res) (simp_all add: syncWalkFn_candidate[OF True] n Let_def)
qed

lemma Sync_starts_with_listing:
  "\<exists>rest. snd (Sync r w pm tree cfg)
      = [EvLog (GettingRemoteList (remotePath cfg)), EvList (remotePath cfg)] @ rest"
proof (rule Sync_trace_invariant)
  let ?P = "\<lambda>tr. \<exists>rest. tr = [EvLog (GettingRemoteList (remotePath cfg)), EvList (remotePath cfg)] @ rest"
  show "callback_keeps (\<lambda>a st. ?P (trace st)) (syncWalkFn r w pm cfg (nat (concurrency cfg)))"
    unfolding callback_keeps_def holds_after_def
  proof (intro conjI allI impI)
    fix path info and s :: walk_state
    assume "?P (trace s)"
    then obtain rest where r: "trace s = [EvLog (GettingRemoteList (remotePath cfg)), EvList (remotePath cfg)] @ rest"
      by blast
    obtain evs where "trace (snd (syncWalkFn r w pm cfg (nat (concurrency cfg)) path info s)) = trace s @ evs"
      using syncWalkFn_appends by blast
    then show "?P (trace (snd (syncWalkFn r w pm cfg (nat (concurrency cfg)) path info s)))"
      using r by simp
  qed simp
  show "?P [EvLog (GettingRemoteList (remotePath cfg)), EvList (remotePath cfg)]"
    by simp
  show "?P (snd (deletePhase r w cfg (nat (concurrency cfg)) st))" if "?P (trace st)" for st
    using that by (auto simp: deletePhase_def Let_def)
qed

lemma syncWalkFn_no_slot:
  "callback_keeps (\<lambda>a st. uploads (trace st) = [] \<and> deletes (trace st) = [] \<and> EvAcquire \<notin> set (trace st))
     (syncWalkFn r w pm cfg 0)"
  unfolding callback_keeps_def holds_after_def
proof (intro conjI allI impI)
  fix path info and s :: walk_state
  assume inv: "uploads (trace s) = [] \<and> deletes (trace s) = [] \<and> EvAcquire \<notin> set (trace s)"
  let ?s' = "snd (syncWalkFn r w pm cfg 0 path info s)"
  have "uploads (trace ?s') = [] \<and> deletes (trace ?s') = [] \<and> EvAcquire \<notin> set (trace ?s')"
  proof (cases "isCandidate pm cfg path info")
    case False
    then show ?thesis using inv
      by (simp add: syncWalkFn_not_candidate split: fsnode.splits)
  next
    case True
    obtain evs res where n: "needUpload w (sizeOnly cfg) (normalizePath path) (infoSize info)
        (map_of (remoteFiles s) (remoteKeyOf cfg path)) = (evs, res)"
      by (cases "needUpload w (sizeOnly cfg) (normalizePath path) (infoSize info)
        (map_of (remoteFiles s) (remoteKeyOf cfg path))")
    from needUpload_events[OF n] needUpload_decisions[OF n]
    have e: "EvAcquire \<notin> set evs" "uploads evs = []" "deletes evs = []" by auto
    show ?thesis using inv e
      by (cases res) (auto simp: syncWalkFn_candidate[OF True] n Let_def)
  qed
  then show "uploads (trace ?s') = []" "deletes (trace ?s') = []" "EvAcquire \<notin> set (trace ?s')"
    by blast+
qed simp_all

lemma Sync_no_slot:
  assumes z: "concurrency cfg = 0"
  shows "fst (Sync r w pm tree cfg) \<noteq> Panicked \<and> uploads (snd (Sync r w pm tree cfg)) = [] \<and>
         deletes (snd (Sync r w pm tree cfg)) = [] \<and> EvAcquire \<notin> set (snd (Sync r w pm tree cfg))"
proof -
  let ?P = "\<lambda>tr. uploads tr = [] \<and> deletes tr = [] \<and> EvAcquire \<notin> set tr"
  have "?P (snd (Sync r w pm tree cfg))"
  proof (rule Sync_trace_invariant)
    show "callback_keeps (\<lambda>a st. ?P (trace st)) (syncWalkFn r w pm cfg (nat (concurrency cfg)))"
      using syncWalkFn_no_slot[of r w pm cfg] z by simp
    show "?P [EvLog (GettingRemoteList (remotePath cfg)), EvList (remotePath cfg)]"
      by simp
    show "?P (snd (deletePhase r w cfg (nat (concurrency cfg)) st))" if "?P (trace st)" for st
      using that z by (simp add: deletePhase_def Let_def)
  qed
  moreover have "fst (Sync r w pm tree cfg) \<noteq> Panicked"
    using z by (auto simp: Sync_def Let_def deletePhase_def split: sum.splits prod.splits option.splits abort.splits)
  ultimately show ?thesis by blast
qed

lemma syncWalkFn_nonrecursive_uploads:
  assumes nr: "\<not> recursive cfg"
  shows "callback_keeps (\<lambda>a st. \<forall>x \<in> set (uploads (trace st)). path_Dir (fst x) = localPath cfg)
           (syncWalkFn r w pm cfg cap)"
  unfolding callback_keeps_def holds_after_def
proof (intro conjI allI impI)
  fix path info and s :: walk_state
  assume inv: "\<forall>x \<in> set (uploads (trace s)). path_Dir (fst x) = localPath cfg"
  show "\<forall>x \<in> set (uploads (trace (snd (syncWalkFn r w pm cfg cap path info s)))).
          path_Dir (fst x) = localPath cfg"
  proof (cases "isCandidate pm cfg path info")
    case False
    then show ?thesis using inv
      by (simp add: syncWalkFn_not_candidate split: fsnode.splits)
  next
    case True
    then have d: "path_Dir (normalizePath path) = localPath cfg"
      using nr by (simp add: isCandidate_def)
    obtain evs res where n: "needUpload w (sizeOnly cfg) (normalizePath path) (infoSize info)
        (map_of (remoteFiles s) (remoteKeyOf cfg path)) = (evs, res)"
      by (cases "needUpload w (sizeOnly cfg) (normalizePath path) (infoSize info)
        (map_of (remoteFiles s) (remoteKeyOf cfg path))")
    from needUpload_decisions[OF n] have e: "uploads evs = []" by simp
    show ?thesis using inv e d
      by (cases res) (auto simp: syncWalkFn_candidate[OF True] n Let_def)
  qed
qed simp

lemma Sync_nonrecursive_uploads:
  assumes nr: "\<not> recursive cfg"
  shows "\<forall>x \<in> set (uploads (snd (Sync r w pm tree cfg))). path_Dir (fst x) = localPath cfg"
proof (rule Sync_trace_invariant)
  show "callback_keeps (\<lambda>a st. \<forall>x \<in> set (uploads (trace st)). path_Dir (fst x) = localPath cfg)
           (syncWalkFn r w pm cfg (nat (concurrency cfg)))"
    by (rule syncWalkFn_nonrecursive_uploads[OF nr])
  show "\<forall>x \<in> set (uploads [EvLog (GettingRemoteList (remotePath cfg)), EvList (remotePath cfg)]).
          path_Dir (fst x) = localPath cfg"
    by simp
  show "\<forall>x \<in> set (uploads (snd (deletePhase r w cfg (nat (concurrency cfg)) st))).
          path_Dir (fst x) = localPath cfg"
    if "\<forall>x \<in> set (uploads (trace st)). path_Dir (fst x) = localPath cfg" for st
    using that by (simp add: deletePhase_def Let_def)
qed

lemma count_update:
  "i < length xs \<Longrightarrow>
     length (filter P (xs[i := y])) + (if P (xs ! i) then 1 else 0)
       = length (filter P xs) + (if P y then 1 else 0)"
proof (induction xs arbitrary: i)
  case Nil
  then show ?case by simp
next
  case (Cons x xs)
  then show ?case by (cases i) auto
qed

lemma count_update_same:
  "i < length xs \<Longrightarrow> P (xs ! i) = P y \<Longrightarrow> length (filter P (xs[i := y])) = length (filter P xs)"
  using count_update[of i xs P y] by (simp split: if_splits)

lemma count_update_in:
  "i < length xs \<Longrightarrow> \<not> P (xs ! i) \<Longrightarrow> P y \<Longrightarrow> length (filter P (xs[i := y])) = length (filter P xs) + 1"
  using count_update[of i xs P y] by simp

lemma count_update_out:
  "i < length xs \<Longrightarrow> P (xs ! i) \<Longrightarrow> \<not> P y \<Longrightarrow> length (filter P (xs[i := y])) + 1 = length (filter P xs)"
  using count_update[of i xs P y] by simp

lemma list_all_update: "list_all P xs \<Longrightarrow> P y \<Longrightarrow> list_all P (xs[k := y])"
  by (induction xs arbitrary: k) (auto split: nat.splits)

lemma ordered_update_submitted:
  assumes ord: "\<forall>i < length xs. xs ! i \<noteq> Todo \<longrightarrow> list_all submitted (take i xs)"
    and k: "k < length xs" "xs ! k \<noteq> Todo" and y: "submitted y"
  shows "\<forall>i < length (xs[k := y]). xs[k := y] ! i \<noteq> Todo \<longrightarrow> list_all submitted (take i (xs[k := y]))"
proof (intro allI impI)
  fix i assume i: "i < length (xs[k := y])" and n: "xs[k := y] ! i \<noteq> Todo"
  have "xs ! i \<noteq> Todo" using n k i by (cases "i = k") auto
  then have "list_all submitted (take i xs)" using ord i by simp
  then show "list_all submitted (take i (xs[k := y]))"
    using y by (simp add: take_update_swap list_all_update)
qed

lemma ordered_update_added:
  assumes ord: "\<forall>i < length xs. xs ! i \<noteq> Todo \<longrightarrow> list_all submitted (take i xs)"
    and k: "k < length xs" "xs ! k = Todo" "list_all submitted (take k xs)"
  shows "\<forall>i < length (xs[k := Added]). xs[k := Added] ! i \<noteq> Todo \<longrightarrow>
           list_all submitted (take i (xs[k := Added]))"
proof (intro allI impI)
  fix i assume i: "i < length (xs[k := Added])" and n: "xs[k := Added] ! i \<noteq> Todo"
  show "list_all submitted (take i (xs[k := Added]))"
  proof (cases "i \<le> k")
    case True
    then have "take i (xs[k := Added]) = take i xs" by simp
    moreover have "list_all submitted (take i xs)"
    proof -
      have "take i xs = take i (take k xs)" using True by (simp add: min_def)
      then show ?thesis using k(3) by (metis list_all_iff in_set_takeD)
    qed
    ultimately show ?thesis by simp
  next
    case False
    then have ki: "k < i" by simp
    have "xs ! i \<noteq> Todo" using n ki by simp
    then have "list_all submitted (take i xs)" using ord i by simp
    moreover have "xs ! k \<in> set (take i xs)" using ki k(1) i by (metis in_set_conv_nth length_take min_less_iff_conj nth_take length_list_update)
    ultimately have "submitted (xs ! k)" by (simp add: list_all_iff)
    then show ?thesis using k(2) by (simp add: submitted_def)
  qed
qed

lemma none_counted_all_gone:
  assumes "length (filter counted xs) = 0" "list_all submitted xs"
  shows "list_all (\<lambda>x. x = Gone) xs"
proof -
  have "x = Gone" if "x \<in> set xs" for x
  proof -
    have "\<not> counted x" using assms(1) that by (auto simp: filter_empty_conv)
    moreover have "submitted x" using assms(2) that by (simp add: list_all_iff)
    ultimately show ?thesis by (cases x) (simp_all add: counted_def submitted_def)
  qed
  then show ?thesis by (simp add: list_all_iff)
qed

lemma all_gone_nth: "list_all (\<lambda>x. x = Gone) xs \<Longrightarrow> i < length xs \<Longrightarrow> xs ! i = Gone"
  by (simp add: list_all_length)

lemma fire_inv:
  assumes inv: "gate_inv n failed g" and f: "fire n failed a g = Some g'"
  shows "gate_inv n failed g'"
proof (cases a)
  case (Add i)
  with f have p: "i < length (stages g)" "stages g ! i = Todo" "list_all submitted (take i (stages g))"
      "\<not> returned g" and g': "g' = g\<lparr>stages := (stages g)[i := Added], wg := wg g + 1\<rparr>"
    by (auto split: if_splits)
  have "length (filter holdsSlot ((stages g)[i := Added])) = length (filter holdsSlot (stages g))"
    using p by (intro count_update_same) (simp_all add: holdsSlot_def)
  moreover have "length (filter counted ((stages g)[i := Added])) = length (filter counted (stages g)) + 1"
    using p by (intro count_update_in) (simp_all add: counted_def)
  moreover note ordered_update_added[OF _ p(1,2,3)]
  ultimately show ?thesis using inv p g' by (auto simp: gate_inv_def)
next
  case (Send i)
  with f have p: "i < length (stages g)" "stages g ! i = Added" "slots g < n"
    and g': "g' = g\<lparr>stages := (stages g)[i := Working], slots := slots g + 1\<rparr>"
    by (auto split: if_splits)
  have "length (filter holdsSlot ((stages g)[i := Working])) = length (filter holdsSlot (stages g)) + 1"
    using p by (intro count_update_in) (simp_all add: holdsSlot_def)
  moreover have "length (filter counted ((stages g)[i := Working])) = length (filter counted (stages g))"
    using p by (intro count_update_same) (simp_all add: counted_def)
  moreover have "\<forall>j < length ((stages g)[i := Working]). (stages g)[i := Working] ! j \<noteq> Todo \<longrightarrow>
      list_all submitted (take j ((stages g)[i := Working]))"
    using inv p by (intro ordered_update_submitted) (simp_all add: gate_inv_def submitted_def)
  moreover have "\<not> (returned g \<and> \<not> failed)"
    using inv p all_gone_nth[of "stages g" i] by (auto simp: gate_inv_def)
  ultimately show ?thesis using inv p g' by (auto simp: gate_inv_def)
next
  case (Finish i)
  with f have p: "i < length (stages g)" "stages g ! i = Working"
    and g': "g' = g\<lparr>stages := (stages g)[i := Recorded]\<rparr>"
    by (auto split: if_splits)
  have "length (filter holdsSlot ((stages g)[i := Recorded])) = length (filter holdsSlot (stages g))"
    using p by (intro count_update_same) (simp_all add: holdsSlot_def)
  moreover have "length (filter counted ((stages g)[i := Recorded])) = length (filter counted (stages g))"
    using p by (intro count_update_same) (simp_all add: counted_def)
  moreover have "\<forall>j < length ((stages g)[i := Recorded]). (stages g)[i := Recorded] ! j \<noteq> Todo \<longrightarrow>
      list_all submitted (take j ((stages g)[i := Recorded]))"
    using inv p by (intro ordered_update_submitted) (simp_all add: gate_inv_def submitted_def)
  moreover have "\<not> (returned g \<and> \<not> failed)"
    using inv p all_gone_nth[of "stages g" i] by (auto simp: gate_inv_def)
  ultimately show ?thesis using inv p g' by (auto simp: gate_inv_def)
next
  case (Release i)
  with f have p: "i < length (stages g)" "stages g ! i = Recorded" "0 < slots g"
    and g': "g' = g\<lparr>stages := (stages g)[i := Released], slots := slots g - 1\<rparr>"
    by (auto split: if_splits)
  have "length (filter holdsSlot ((stages g)[i := Released])) + 1 = length (filter holdsSlot (stages g))"
    using p by (intro count_update_out) (simp_all add: holdsSlot_def)
  moreover have "length (filter counted ((stages g)[i := Released])) = length (filter counted (stages g))"
    using p by (intro count_update_same) (simp_all add: counted_def)
  moreover have "\<forall>j < length ((stages g)[i := Released]). (stages g)[i := Released] ! j \<noteq> Todo \<longrightarrow>
      list_all submitted (take j ((stages g)[i := Released]))"
    using inv p by (intro ordered_update_submitted) (simp_all add: gate_inv_def submitted_def)
  moreover have "\<not> (returned g \<and> \<not> failed)"
    using inv p all_gone_nth[of "stages g" i] by (auto simp: gate_inv_def)
  ultimately show ?thesis using inv p g' by (auto simp: gate_inv_def)
next
  case (Done i)
  with f have p: "i < length (stages g)" "stages g ! i = Released" "0 < wg g"
    and g': "g' = g\<lparr>stages := (stages g)[i := Gone], wg := wg g - 1\<rparr>"
    by (auto split: if_splits)
  have "length (filter holdsSlot ((stages g)[i := Gone])) = length (filter holdsSlot (stages g))"
    using p by (intro count_update_same) (simp_all add: holdsSlot_def)
  moreover have "length (filter counted ((stages g)[i := Gone])) + 1 = length (filter counted (stages g))"
    using p by (intro count_update_out) (simp_all add: counted_def)
  moreover have "\<forall>j < length ((stages g)[i := Gone]). (stages g)[i := Gone] ! j \<noteq> Todo \<longrightarrow>
      list_all submitted (take j ((stages g)[i := Gone]))"
    using inv p by (intro ordered_update_submitted) (simp_all add: gate_inv_def submitted_def)
  moreover have "\<not> (returned g \<and> \<not> failed)"
    using inv p all_gone_nth[of "stages g" i] by (auto simp: gate_inv_def)
  ultimately show ?thesis using inv p g' by (auto simp: gate_inv_def)
next
  case Return
  with f have p: "list_all submitted (stages g)" "\<not> returned g" "failed \<or> wg g = 0"
    and g': "g' = g\<lparr>returned := True\<rparr>"
    by (auto split: if_splits)
  have "list_all (\<lambda>x. x = Gone) (stages g)" if "\<not> failed"
    using that p inv none_counted_all_gone[of "stages g"] by (simp add: gate_inv_def)
  then show ?thesis using inv g' by (auto simp: gate_inv_def)
qed

lemma start_inv: "gate_inv n failed (start tasks)"
  by (simp add: gate_inv_def start_def holdsSlot_def counted_def)

lemma run_inv:
  "gate_inv n failed g \<Longrightarrow> run n failed acts g = Some g' \<Longrightarrow> gate_inv n failed g'"
proof (induction acts arbitrary: g)
  case Nil
  then show ?case by simp
next
  case (Cons a acts)
  then show ?case by (auto split: option.splits dest: fire_inv)
qed

lemma nth_in_take: "i < j \<Longrightarrow> i < length xs \<Longrightarrow> xs ! i \<in> set (take j xs)"
proof -
  assume a: "i < j" "i < length xs"
  then have "take j xs ! i = xs ! i" and "i < length (take j xs)" by simp_all
  then show ?thesis by (metis nth_mem)
qed

lemma added_blocks_add:
  assumes inv: "gate_inv n failed g" and i: "i < length (stages g)" "stages g ! i = Added"
  shows "fire n failed (Add j) g = None"
proof (rule ccontr)
  assume "fire n failed (Add j) g \<noteq> None"
  then have j: "j < length (stages g)" "stages g ! j = Todo" "list_all submitted (take j (stages g))"
    by (auto split: if_splits)
  have ne: "i \<noteq> j" using i j by auto
  show False
  proof (cases "i < j")
    case True
    then have "stages g ! i \<in> set (take j (stages g))"
      using i(1) by (simp add: nth_in_take)
    then have "submitted (stages g ! i)" using j(3) by (simp add: list_all_iff)
    then show False using i(2) by (simp add: submitted_def)
  next
    case False
    then have ji: "j < i" using ne by simp
    have "list_all submitted (take i (stages g))"
      using inv i by (simp add: gate_inv_def)
    moreover have "stages g ! j \<in> set (take i (stages g))"
      using ji j(1) by (simp add: nth_in_take)
    ultimately have "submitted (stages g ! j)" by (simp add: list_all_iff)
    then show False using j(2) by (simp add: submitted_def)
  qed
qed

lemma added_blocks_return:
  assumes i: "i < length (stages g)" "stages g ! i = Added"
  shows "fire n failed Return g = None"
proof -
  have "stages g ! i \<in> set (stages g)" using i(1) by simp
  then have "\<not> list_all submitted (stages g)"
    using i(2) by (auto simp: list_all_iff submitted_def)
  then show ?thesis by simp
qed



lemma from_files_mono:
  "set ps \<subseteq> set qs \<Longrightarrow> from_files cfg ps tr tr' \<Longrightarrow> from_files cfg qs tr tr'"
  unfolding from_files_def by blast





lemma walkedFiles_pruned:
  "shouldExclude pm (normalizePath path) pats \<Longrightarrow>
     walkedFiles path (prune pm pats path (Dir name entries)) = []"
  by simp
lemma syncWalkFn_grows:
  "callback_keeps (\<lambda>a st. \<exists>evs. trace st = tr @ evs) (syncWalkFn r w pm cfg cap)"
  unfolding callback_keeps_def holds_after_def
proof (intro conjI allI impI)
  fix path info and s :: walk_state
  assume "\<exists>evs. trace s = tr @ evs"
  then obtain evs where a: "trace s = tr @ evs" by blast
  obtain evs' where "trace (snd (syncWalkFn r w pm cfg cap path info s)) = trace s @ evs'"
    using syncWalkFn_appends by blast
  then show "\<exists>evs. trace (snd (syncWalkFn r w pm cfg cap path info s)) = tr @ evs"
    using a by simp
qed simp

lemma walk_grows:
  "\<exists>evs. trace (snd (walk (syncWalkFn r w pm cfg cap) path t s)) = trace s @ evs"
  using walk_post[OF syncWalkFn_grows[of "trace s" r w pm cfg cap], of s path t]
  by (simp add: holds_after_def)

lemma walkDir_grows:
  "\<exists>evs. trace (snd (walkDir (syncWalkFn r w pm cfg cap) path es s)) = trace s @ evs"
proof -
  let ?Q = "\<lambda>(a :: abort action) (st :: walk_state). \<exists>evs. trace st = trace s @ evs"
  have keeps: "callback_keeps ?Q (syncWalkFn r w pm cfg cap)"
    by (rule syncWalkFn_grows)
  have sub: "\<forall>e \<in> set es. \<forall>p s'. ?Q Next s' \<longrightarrow> holds_after ?Q (walk (syncWalkFn r w pm cfg cap) p e s')"
    using walk_post[OF keeps] by blast
  have "?Q Next s" by simp
  from walkDir_post_aux[OF keeps sub this, of path]
  show ?thesis by (simp add: holds_after_def)
qed

lemma blocked_before_grows:
  assumes b: "blocked_before r0 r1" and d: "r0 \<noteq> r1"
    and g: "\<exists>evs. trace s' = trace (snd r1) @ evs"
  shows "blocked_before r0 (a, s')"
proof -
  from b d obtain rest where r: "fst r0 = Stop Deadlock" "trace (snd r1) = trace (snd r0) @ EvAcquire # rest"
    by (auto simp: blocked_before_def)
  from g obtain evs where "trace s' = trace (snd r1) @ evs" by blast
  with r have "trace s' = trace (snd r0) @ EvAcquire # (rest @ evs)" by simp
  with r(1) show ?thesis by (auto simp: blocked_before_def)
qed

lemma syncWalkFn_blocked_before:
  assumes n: "0 < n"
  shows "blocked_before (syncWalkFn r w pm cfg 0 path info st) (syncWalkFn r w pm cfg n path info st)"
proof (cases "isCandidate pm cfg path info")
  case False
  then show ?thesis by (simp add: syncWalkFn_not_candidate blocked_before_def)
next
  case True
  obtain evs res where nu: "needUpload w (sizeOnly cfg) (normalizePath path) (infoSize info)
      (map_of (remoteFiles st) (remoteKeyOf cfg path)) = (evs, res)"
    by (cases "needUpload w (sizeOnly cfg) (normalizePath path) (infoSize info)
      (map_of (remoteFiles st) (remoteKeyOf cfg path))")
  show ?thesis using n
    by (cases res) (auto simp: syncWalkFn_candidate[OF True] nu Let_def blocked_before_def)
qed

lemma walkDir_blocked_aux:
  assumes n: "0 < n"
    and sub: "\<forall>e \<in> set es. \<forall>p s.
      blocked_before (walk (syncWalkFn r w pm cfg 0) p e s) (walk (syncWalkFn r w pm cfg n) p e s)"
  shows "blocked_before (walkDir (syncWalkFn r w pm cfg 0) path es s)
           (walkDir (syncWalkFn r w pm cfg n) path es s)"
  using sub
proof (induction es arbitrary: s)
  case Nil
  show ?case by (simp add: blocked_before_def)
next
  case (Cons e es)
  let ?f0 = "syncWalkFn r w pm cfg 0" and ?fn = "syncWalkFn r w pm cfg n"
  let ?p = "filepath_Join path (nodeName e)"
  obtain b0 s0 where w0: "walk ?f0 ?p e s = (b0, s0)" by (cases "walk ?f0 ?p e s")
  obtain b1 s1 where w1: "walk ?fn ?p e s = (b1, s1)" by (cases "walk ?fn ?p e s")
  have one: "blocked_before (b0, s0) (b1, s1)"
    using Cons.prems w0 w1 by (metis list.set_intros(1))
  have ih: "blocked_before (walkDir ?f0 path es s') (walkDir ?fn path es s')" for s'
    using Cons.IH Cons.prems by simp
  show ?case
  proof (cases "(b0, s0) = (b1, s1)")
    case True
    then have eq: "b1 = b0" "s1 = s0" by simp_all
    show ?thesis
    proof (cases b0)
      case Next
      with w0 w1 eq ih show ?thesis by simp
    next
      case SkipDir
      with w0 w1 eq ih show ?thesis by (cases "isFile e") (simp_all add: blocked_before_def)
    next
      case (Stop x)
      with w0 w1 eq show ?thesis by (simp add: blocked_before_def)
    qed
  next
    case False
    with one have d: "b0 = Stop Deadlock" by (auto simp: blocked_before_def)
    then have r0: "walkDir ?f0 path (e # es) s = (b0, s0)" using w0 by simp
    obtain a s' where r1: "walkDir ?fn path (e # es) s = (a, s')"
      by (cases "walkDir ?fn path (e # es) s")
    have g: "\<exists>evs. trace s' = trace s1 @ evs"
    proof (cases "a = b1 \<and> s' = s1")
      case True
      then show ?thesis by simp
    next
      case False
      then have "walkDir ?fn path (e # es) s = walkDir ?fn path es s1"
        using w1 r1 by (cases b1; cases "isFile e") auto
      then show ?thesis using walkDir_grows[of r w pm cfg n path es s1] r1 by simp
    qed
    have g': "\<exists>evs. trace s' = trace (snd (b1, s1)) @ evs" using g by simp
    have "blocked_before (b0, s0) (a, s')"
      using blocked_before_grows[OF one False g'] .
    with r0 r1 show ?thesis by simp
  qed
qed

lemma walk_blocked_before:
  assumes n: "0 < n"
  shows "blocked_before (walk (syncWalkFn r w pm cfg 0) path t s) (walk (syncWalkFn r w pm cfg n) path t s)"
proof (induction t arbitrary: path s)
  case (File name sz)
  show ?case using syncWalkFn_blocked_before[OF n] by simp
next
  case (Dir name entries)
  have sub: "\<forall>e \<in> set entries. \<forall>p s.
      blocked_before (walk (syncWalkFn r w pm cfg 0) p e s) (walk (syncWalkFn r w pm cfg n) p e s)"
    using Dir.IH by blast
  show ?case
    using walkDir_blocked_aux[OF n sub, of path s]
    by (simp add: syncWalkFn_Dir blocked_before_def)
next
  case (Broken name err)
  show ?case using syncWalkFn_blocked_before[OF n] by simp
qed

lemma syncWalkFn_concurrency [simp]:
  "syncWalkFn r w pm (cfg\<lparr>concurrency := n\<rparr>) cap = syncWalkFn r w pm cfg cap"
  by (intro ext) (auto simp: syncWalkFn_def Let_def split: fsnode.splits prod.splits sum.splits)

lemma deletePhase_concurrency [simp]:
  "deletePhase r w (cfg\<lparr>concurrency := n\<rparr>) cap st = deletePhase r w cfg cap st"
  by (simp add: deletePhase_def Let_def)

lemma deleteLoop_first:
  "keys \<noteq> [] \<Longrightarrow> \<exists>rest. deleteLoop r w dry keys = EvAcquire # rest"
  by (cases keys) simp_all

lemma Sync_blocked_before:
  assumes z: "concurrency cfg = 0" and n: "0 < n"
  shows "Sync r w pm tree cfg = Sync r w pm tree (cfg\<lparr>concurrency := n\<rparr>) \<or>
         (fst (Sync r w pm tree cfg) = Blocked \<and>
          (\<exists>rest. snd (Sync r w pm tree (cfg\<lparr>concurrency := n\<rparr>))
                     = snd (Sync r w pm tree cfg) @ EvAcquire # rest))"
proof (cases "ListObjects w (remotePath cfg)")
  case (Inl err)
  then show ?thesis by (simp add: Sync_def)
next
  case (Inr listed)
  let ?f0 = "syncWalkFn r w pm cfg 0" and ?fn = "syncWalkFn r w pm cfg (nat n)"
  let ?s0 = "\<lparr>remoteFiles = listed, uploadCount = 0,
               trace = [EvLog (GettingRemoteList (remotePath cfg)), EvList (remotePath cfg)]\<rparr>"
  have pos: "0 < nat n" using n by simp
  obtain b0 s0 where w0: "walk ?f0 (localPath cfg) tree ?s0 = (b0, s0)"
    by (cases "walk ?f0 (localPath cfg) tree ?s0")
  obtain b1 s1 where w1: "walk ?fn (localPath cfg) tree ?s0 = (b1, s1)"
    by (cases "walk ?fn (localPath cfg) tree ?s0")
  have S0: "Sync r w pm tree cfg =
      (case b0 of Stop (Failed err) \<Rightarrow> (Returned (Some (Wrapped ''upload failed'' err)), trace s0)
       | Stop Deadlock \<Rightarrow> (Blocked, trace s0)
       | _ \<Rightarrow> deletePhase r w cfg 0 s0)"
    using Inr z w0 by (simp add: Sync_def filepath_Walk_def split: action.splits abort.splits)
  have S1: "Sync r w pm tree (cfg\<lparr>concurrency := n\<rparr>) =
      (case b1 of Stop (Failed err) \<Rightarrow> (Returned (Some (Wrapped ''upload failed'' err)), trace s1)
       | Stop Deadlock \<Rightarrow> (Blocked, trace s1)
       | _ \<Rightarrow> deletePhase r w cfg (nat n) s1)"
    using Inr n w1 by (simp add: Sync_def filepath_Walk_def split: action.splits abort.splits)
  have rel: "blocked_before (b0, s0) (b1, s1)"
    using walk_blocked_before[OF pos, of r w pm cfg "localPath cfg" tree ?s0] w0 w1 by simp
  show ?thesis
  proof (cases "(b0, s0) = (b1, s1)")
    case True
    then have eq: "b1 = b0" "s1 = s0" by simp_all
    show ?thesis
    proof (cases "\<exists>x. b0 = Stop x")
      case True
      then show ?thesis using S0 S1 eq by auto
    next
      case False
      then have ph: "Sync r w pm tree cfg = deletePhase r w cfg 0 s0"
        "Sync r w pm tree (cfg\<lparr>concurrency := n\<rparr>) = deletePhase r w cfg (nat n) s0"
        using S0 S1 eq by (cases b0; simp)+
      show ?thesis
      proof (cases "deleteSync cfg \<and> remoteFiles s0 \<noteq> []")
        case False
        then show ?thesis using ph by (auto simp: deletePhase_def Let_def)
      next
        case True
        then have "map fst (remoteFiles s0) \<noteq> []" by simp
        from deleteLoop_first[OF this, of r w "dryRun cfg"]
        obtain rest where "deleteLoop r w (dryRun cfg) (map fst (remoteFiles s0)) = EvAcquire # rest"
          by blast
        then show ?thesis using ph True pos
          by (simp add: deletePhase_def Let_def)
      qed
    qed
  next
    case False
    with rel obtain rest where d: "b0 = Stop Deadlock" "trace s1 = trace s0 @ EvAcquire # rest"
      by (auto simp: blocked_before_def)
    have r0: "Sync r w pm tree cfg = (Blocked, trace s0)" using S0 d by simp
    have "\<exists>evs. snd (Sync r w pm tree (cfg\<lparr>concurrency := n\<rparr>)) = trace s1 @ evs"
      using S1 by (cases b1) (auto simp: deletePhase_def Let_def split: abort.splits)
    then obtain evs where "snd (Sync r w pm tree (cfg\<lparr>concurrency := n\<rparr>)) = trace s1 @ evs"
      by blast
    then have "snd (Sync r w pm tree (cfg\<lparr>concurrency := n\<rparr>)) = trace s0 @ EvAcquire # (rest @ evs)"
      using d by simp
    then show ?thesis using r0 by simp
  qed
qed

lemma takeWhile_first_slot:
  "EvAcquire \<notin> set tr \<Longrightarrow> takeWhile (\<lambda>e. e \<noteq> EvAcquire) (tr @ EvAcquire # rest) = tr"
  by (induction tr) auto

lemma Sync_without_slot:
  assumes z: "concurrency cfg = 0" and n: "0 < n"
  shows "if EvAcquire \<in> set (snd (Sync r w pm tree (cfg\<lparr>concurrency := n\<rparr>)))
         then Sync r w pm tree cfg
                = (Blocked, takeWhile (\<lambda>e. e \<noteq> EvAcquire) (snd (Sync r w pm tree (cfg\<lparr>concurrency := n\<rparr>))))
         else Sync r w pm tree cfg = Sync r w pm tree (cfg\<lparr>concurrency := n\<rparr>)"
proof -
  have no: "EvAcquire \<notin> set (snd (Sync r w pm tree cfg))"
    using Sync_no_slot[OF z, of r w pm tree] by simp
  from Sync_blocked_before[OF z n, of r w pm tree]
  show ?thesis
  proof
    assume eq: "Sync r w pm tree cfg = Sync r w pm tree (cfg\<lparr>concurrency := n\<rparr>)"
    then show ?thesis using no by simp
  next
    assume b: "fst (Sync r w pm tree cfg) = Blocked \<and>
          (\<exists>rest. snd (Sync r w pm tree (cfg\<lparr>concurrency := n\<rparr>))
                     = snd (Sync r w pm tree cfg) @ EvAcquire # rest)"
    then obtain rest where r: "snd (Sync r w pm tree (cfg\<lparr>concurrency := n\<rparr>))
                     = snd (Sync r w pm tree cfg) @ EvAcquire # rest" by blast
    have t: "takeWhile (\<lambda>e. e \<noteq> EvAcquire) (snd (Sync r w pm tree (cfg\<lparr>concurrency := n\<rparr>)))
               = snd (Sync r w pm tree cfg)"
      using takeWhile_first_slot[OF no] r by simp
    have "Sync r w pm tree cfg = (Blocked, snd (Sync r w pm tree cfg))"
      using b by (metis prod.collapse)
    then show ?thesis using r t by simp
  qed
qed

section \<open>The claims\<close>

subsection \<open>Exclusion matching\<close>

text \<open>
  C7. For every path and every pattern list, \<open>shouldExclude\<close> is true exactly when some
  pattern of the list matches the full path or matches one of the parts obtained by
  splitting the path at the slashes, where a pattern matches when \<open>path.Match\<close> reports
  a match and no error. A call of \<open>path.Match\<close> that reports an error never counts as
  a match, a pattern for which every call reports an error changes nothing, and
  \<open>shouldExclude\<close> itself has no error result. Two lists with the same patterns, in
  any order and with any repetitions, give the same answer.
\<close>

theorem shouldExclude_any_pattern:
  "(shouldExclude pm fullpath patterns \<longleftrightarrow>
      (\<exists>pattern \<in> set patterns.
         matches pm pattern fullpath \<or>
         (\<exists>part \<in> set (strings_Split fullpath). matches pm pattern part)))
   \<and> (snd (pm pattern name) \<noteq> None \<longrightarrow> \<not> matches pm pattern name)
   \<and> ((\<forall>name. snd (pm bad name) \<noteq> None) \<longrightarrow>
        shouldExclude pm fullpath (bad # patterns) = shouldExclude pm fullpath patterns)
   \<and> (set patterns = set patterns' \<longrightarrow>
        shouldExclude pm fullpath patterns = shouldExclude pm fullpath patterns')"
proof (intro conjI impI)
  show "shouldExclude pm fullpath patterns \<longleftrightarrow>
      (\<exists>pattern \<in> set patterns.
         matches pm pattern fullpath \<or>
         (\<exists>part \<in> set (strings_Split fullpath). matches pm pattern part))"
    by (rule shouldExclude_exists)
next
  assume "snd (pm pattern name) \<noteq> None"
  then show "\<not> matches pm pattern name"
    by (rule matches_err)
next
  assume bad: "\<forall>name. snd (pm bad name) \<noteq> None"
  have "\<not> matches pm bad n" for n
    using bad by (simp add: matches_err)
  then show "shouldExclude pm fullpath (bad # patterns) = shouldExclude pm fullpath patterns"
    by (simp add: anyPart_iff)
next
  assume "set patterns = set patterns'"
  then show "shouldExclude pm fullpath patterns = shouldExclude pm fullpath patterns'"
    by (simp add: shouldExclude_exists)
qed

theorem shouldExclude_any_pattern_witness:
  "shouldExclude globMatch ''/data/logs/a.txt'' [''*.tmp'', ''logs'']
   \<and> \<not> matches globMatch ''[x'' ''[x''
   \<and> shouldExclude globMatch ''/data/logs/a.txt'' [''[x'', ''*.tmp'', ''logs'']
       = shouldExclude globMatch ''/data/logs/a.txt'' [''*.tmp'', ''logs'']
   \<and> shouldExclude globMatch ''/data/logs/a.txt'' [''*.tmp'', ''logs'']
       = shouldExclude globMatch ''/data/logs/a.txt'' [''logs'', ''*.tmp'', ''logs'']"
proof -
  have bad: "\<forall>name. snd (globMatch ''[x'' name) \<noteq> None"
    by (simp add: globMatch_def)
  have sets: "set [''*.tmp'', ''logs''] = set [''logs'', ''*.tmp'', ''logs'']"
    by auto
  have here: "snd (globMatch ''[x'' ''[x'') \<noteq> None"
    by (simp add: globMatch_def)
  have ex: "\<exists>pattern \<in> set [''*.tmp'', ''logs''].
         matches globMatch pattern ''/data/logs/a.txt'' \<or>
         (\<exists>part \<in> set (strings_Split ''/data/logs/a.txt''). matches globMatch pattern part)"
    by (simp add: matches_def globMatch_def)
  show ?thesis
    using shouldExclude_any_pattern [of globMatch "''/data/logs/a.txt''" "[''*.tmp'', ''logs'']"
        "''[x''" "''[x''" "''[x''" "[''logs'', ''*.tmp'', ''logs'']"] bad sets here ex
    by blast
qed

subsection \<open>Claimed keys and the delete phase\<close>




subsection \<open>Dry-run mode\<close>

text \<open>
  C8. In dry-run mode a run makes no call that changes the bucket: no \<open>PutObject\<close> and
  no delete request is among its events, whatever the tree, the listing and the options.
  It ends the way the real run ends, and apart from the storage calls and the log lines
  that report their results its events are those of the real run: the same admissions,
  the same tasks started in the same order, each announced by the same log line, and the
  same counts.
\<close>

theorem dryRun_no_storage_mutation:
  "filter isMutation (snd (Sync r w pm tree (cfg\<lparr>dryRun := True\<rparr>))) = []
   \<and> fst (Sync r w pm tree (cfg\<lparr>dryRun := True\<rparr>)) = fst (Sync r w pm tree (cfg\<lparr>dryRun := False\<rparr>))
   \<and> plan (snd (Sync r w pm tree (cfg\<lparr>dryRun := True\<rparr>)))
       = plan (snd (Sync r w pm tree (cfg\<lparr>dryRun := False\<rparr>)))
   \<and> uploads (snd (Sync r w pm tree (cfg\<lparr>dryRun := True\<rparr>)))
       = uploads (snd (Sync r w pm tree (cfg\<lparr>dryRun := False\<rparr>)))
   \<and> deletes (snd (Sync r w pm tree (cfg\<lparr>dryRun := True\<rparr>)))
       = deletes (snd (Sync r w pm tree (cfg\<lparr>dryRun := False\<rparr>)))"
proof -
  let ?dry = "cfg\<lparr>dryRun := True\<rparr>" and ?real = "cfg\<lparr>dryRun := False\<rparr>"
  have d: "dryRun ?dry" by simp
  have "filter isMutation (snd (Sync r w pm tree ?dry)) = []"
  proof (rule Sync_trace_invariant)
    show "callback_keeps (\<lambda>a st. filter isMutation (trace st) = []) (syncWalkFn r w pm ?dry cap)" for cap
      by (rule syncWalkFn_dry_no_mutation[OF d])
    show "filter isMutation [EvLog (GettingRemoteList (remotePath ?dry)), EvList (remotePath ?dry)] = []"
      by simp
    show "filter isMutation (snd (deletePhase r w ?dry cap st)) = []"
      if "filter isMutation (trace st) = []" for cap st
      using that by (simp add: deletePhase_def Let_def)
  qed
  moreover have e: "?real\<lparr>dryRun := True\<rparr> = ?dry" by simp
  from Sync_plan_agree[of ?real w w r pm tree True] e
  have ag: "fst (Sync r w pm tree ?dry) = fst (Sync r w pm tree ?real)"
       "plan (snd (Sync r w pm tree ?dry)) = plan (snd (Sync r w pm tree ?real))"
    by simp_all
  moreover have "uploads (snd (Sync r w pm tree ?dry)) = uploads (snd (Sync r w pm tree ?real))"
    using ag(2) uploads_plan by metis
  moreover have "deletes (snd (Sync r w pm tree ?dry)) = deletes (snd (Sync r w pm tree ?real))"
    using ag(2) deletes_plan by metis
  ultimately show ?thesis by blast
qed

theorem dryRun_no_storage_mutation_witness:
  "filter isMutation (snd (Sync ex_client ex_world globMatch ex_tree (ex_config\<lparr>dryRun := True\<rparr>))) = []
   \<and> filter isMutation (snd (Sync ex_client ex_world globMatch ex_tree (ex_config\<lparr>dryRun := False\<rparr>)))
       = [EvPut ''prefix/sub/b.txt'' ''/data/sub/b.txt'', EvDelete ''prefix/old.txt'']
   \<and> fst (Sync ex_client ex_world globMatch ex_tree (ex_config\<lparr>dryRun := True\<rparr>)) = Returned None
   \<and> uploads (snd (Sync ex_client ex_world globMatch ex_tree (ex_config\<lparr>dryRun := True\<rparr>)))
       = [(''/data/sub/b.txt'', ''prefix/sub/b.txt'')]
   \<and> deletes (snd (Sync ex_client ex_world globMatch ex_tree (ex_config\<lparr>dryRun := True\<rparr>)))
       = [''prefix/old.txt'']"
proof -
  let ?real = "Sync ex_client ex_world globMatch ex_tree (ex_config\<lparr>dryRun := False\<rparr>)"
  have "filter isMutation (snd ?real)
       = [EvPut ''prefix/sub/b.txt'' ''/data/sub/b.txt'', EvDelete ''prefix/old.txt'']"
    by code_simp
  moreover have "fst ?real = Returned None"
    by code_simp
  moreover have "uploads (snd ?real) = [(''/data/sub/b.txt'', ''prefix/sub/b.txt'')]"
    by code_simp
  moreover have "deletes (snd ?real) = [''prefix/old.txt'']"
    by code_simp
  ultimately show ?thesis
    using dryRun_no_storage_mutation [of ex_client ex_world globMatch ex_tree ex_config]
    by simp
qed

subsection \<open>Size-only mode\<close>

text \<open>
  C10. In size-only mode no file is hashed: \<open>calcETag\<close> is never called. Two runs that
  see the same listing and the same tree of names and sizes end the same way and take the
  same decisions (uploads, deletes, and the whole plan), whatever the contents of the
  local files are and whether or not they can be read.
\<close>

theorem sizeOnly_ignores_contents:
  assumes so: "sizeOnly cfg"
  shows "filter isHash (snd (Sync r w pm tree cfg)) = []
     \<and> (listing w' = listing w \<longrightarrow>
          fst (Sync r w' pm tree cfg) = fst (Sync r w pm tree cfg) \<and>
          uploads (snd (Sync r w' pm tree cfg)) = uploads (snd (Sync r w pm tree cfg)) \<and>
          deletes (snd (Sync r w' pm tree cfg)) = deletes (snd (Sync r w pm tree cfg)) \<and>
          plan (snd (Sync r w' pm tree cfg)) = plan (snd (Sync r w pm tree cfg)))"
proof (intro conjI impI)
  show "filter isHash (snd (Sync r w pm tree cfg)) = []"
  proof (rule Sync_trace_invariant)
    show "callback_keeps (\<lambda>a st. filter isHash (trace st) = []) (syncWalkFn r w pm cfg cap)" for cap
      by (rule syncWalkFn_sizeOnly_no_hash[OF so])
    show "filter isHash [EvLog (GettingRemoteList (remotePath cfg)), EvList (remotePath cfg)] = []"
      by simp
    show "filter isHash (snd (deletePhase r w cfg cap st)) = []"
      if "filter isHash (trace st) = []" for cap st
      using that by (simp add: deletePhase_def Let_def)
  qed
next
  assume l: "listing w' = listing w"
  have e: "cfg\<lparr>dryRun := dryRun cfg\<rparr> = cfg" by simp
  from Sync_plan_agree[of cfg w' w r pm tree "dryRun cfg"] so l e
  have ag: "fst (Sync r w' pm tree cfg) = fst (Sync r w pm tree cfg)"
       "plan (snd (Sync r w' pm tree cfg)) = plan (snd (Sync r w pm tree cfg))"
    by simp_all
  show "fst (Sync r w' pm tree cfg) = fst (Sync r w pm tree cfg)" by (rule ag(1))
  show "plan (snd (Sync r w' pm tree cfg)) = plan (snd (Sync r w pm tree cfg))" by (rule ag(2))
  show "uploads (snd (Sync r w' pm tree cfg)) = uploads (snd (Sync r w pm tree cfg))"
    using ag(2) uploads_plan by metis
  show "deletes (snd (Sync r w' pm tree cfg)) = deletes (snd (Sync r w pm tree cfg))"
    using ag(2) deletes_plan by metis
qed

theorem sizeOnly_ignores_contents_witness:
  "sizeOnly (ex_config\<lparr>sizeOnly := True\<rparr>)
   \<and> listing ex_unreadable = listing ex_world
   \<and> filter isHash (snd (Sync ex_client ex_unreadable globMatch ex_tree (ex_config\<lparr>sizeOnly := True\<rparr>))) = []
   \<and> fst (Sync ex_client ex_unreadable globMatch ex_tree (ex_config\<lparr>sizeOnly := True\<rparr>)) = Returned None
   \<and> uploads (snd (Sync ex_client ex_unreadable globMatch ex_tree (ex_config\<lparr>sizeOnly := True\<rparr>)))
       = [(''/data/sub/b.txt'', ''prefix/sub/b.txt'')]
   \<and> deletes (snd (Sync ex_client ex_unreadable globMatch ex_tree (ex_config\<lparr>sizeOnly := True\<rparr>)))
       = [''prefix/old.txt'']"
proof -
  let ?cfg = "ex_config\<lparr>sizeOnly := True\<rparr>"
  let ?run = "Sync ex_client ex_world globMatch ex_tree ?cfg"
  have so: "sizeOnly ?cfg" by simp
  have l: "listing ex_unreadable = listing ex_world" by (simp add: ex_unreadable_def)
  have "fst ?run = Returned None" by code_simp
  moreover have "uploads (snd ?run) = [(''/data/sub/b.txt'', ''prefix/sub/b.txt'')]" by code_simp
  moreover have "deletes (snd ?run) = [''prefix/old.txt'']" by code_simp
  ultimately show ?thesis
    using sizeOnly_ignores_contents [OF so, of ex_client ex_unreadable globMatch ex_tree ex_world] l so
    by simp
qed

subsection \<open>Fingerprint failures\<close>

text \<open>
  C1, as the code has it. A fingerprint failure is not local to the file. \<open>calcETag\<close> is
  called for a candidate only in full mode and only when the candidate's key is in the
  map; when it fails there, the callback returns the error at once, without an upload and
  without claiming the key. For the whole run: if a path that the run hashed is one for
  which \<open>calcETag\<close> fails, then that hash is the last event of the run (nothing later in
  the walk is examined), \<open>Sync\<close> returns the error wrapped as \<open>upload failed\<close>, and no
  delete is started.
\<close>

theorem fingerprint_failure_stops_sync:
  "(isCandidate pm cfg path info \<and> map_of (remoteFiles st) (remoteKeyOf cfg path) = Some ri \<and>
      \<not> sizeOnly cfg \<and> calcETag w (normalizePath path) = Inl err \<longrightarrow>
      syncWalkFn r w pm cfg cap path info st
        = (Stop (Failed err), st\<lparr>trace := trace st @ [EvHash (normalizePath path)]\<rparr>))
   \<and> (p \<in> set (hashed (snd (Sync r w pm tree cfg))) \<and> calcETag w p = Inl err \<longrightarrow>
        fst (Sync r w pm tree cfg) = Returned (Some (Wrapped ''upload failed'' err)) \<and>
        last (snd (Sync r w pm tree cfg)) = EvHash p \<and>
        deletes (snd (Sync r w pm tree cfg)) = [])"
proof (rule conjI; rule impI)
  assume a: "isCandidate pm cfg path info \<and> map_of (remoteFiles st) (remoteKeyOf cfg path) = Some ri \<and>
      \<not> sizeOnly cfg \<and> calcETag w (normalizePath path) = Inl err"
  then have "needUpload w (sizeOnly cfg) (normalizePath path) (infoSize info)
      (map_of (remoteFiles st) (remoteKeyOf cfg path)) = ([EvHash (normalizePath path)], Inl err)"
    by (simp add: needUpload_def)
  then show "syncWalkFn r w pm cfg cap path info st
        = (Stop (Failed err), st\<lparr>trace := trace st @ [EvHash (normalizePath path)]\<rparr>)"
    using a by (simp add: syncWalkFn_candidate Let_def)
next
  assume "p \<in> set (hashed (snd (Sync r w pm tree cfg))) \<and> calcETag w p = Inl err"
  then show "fst (Sync r w pm tree cfg) = Returned (Some (Wrapped ''upload failed'' err)) \<and>
        last (snd (Sync r w pm tree cfg)) = EvHash p \<and>
        deletes (snd (Sync r w pm tree cfg)) = []"
    using Sync_hash_failure by blast
qed

theorem fingerprint_failure_stops_sync_witness:
  "isCandidate globMatch ex_config ''/data/a.txt'' (File ''a.txt'' 1)
   \<and> calcETag ex_one_unreadable ''/data/a.txt'' = Inl (OSError ''permission denied'')
   \<and> ''/data/a.txt'' \<in> set (hashed (snd (Sync ex_client ex_one_unreadable globMatch ex_tree ex_config)))
   \<and> fst (Sync ex_client ex_one_unreadable globMatch ex_tree ex_config)
       = Returned (Some (Wrapped ''upload failed'' (OSError ''permission denied'')))
   \<and> last (snd (Sync ex_client ex_one_unreadable globMatch ex_tree ex_config)) = EvHash ''/data/a.txt''
   \<and> deletes (snd (Sync ex_client ex_one_unreadable globMatch ex_tree ex_config)) = []
   \<and> fst (syncWalkFn ex_client ex_one_unreadable globMatch ex_config 5 ''/data/a.txt'' (File ''a.txt'' 1)
        \<lparr>remoteFiles = map (\<lambda>obj. (Path obj, obj)) ex_objects, uploadCount = 0, trace = []\<rparr>)
       = Stop (Failed (OSError ''permission denied''))"
proof -
  let ?st = "\<lparr>remoteFiles = map (\<lambda>obj. (Path obj, obj)) ex_objects, uploadCount = 0, trace = []\<rparr>"
  have c: "isCandidate globMatch ex_config ''/data/a.txt'' (File ''a.txt'' 1)"
    by code_simp
  have k: "map_of (remoteFiles ?st) (remoteKeyOf ex_config ''/data/a.txt'')
      = Some \<lparr>Path = ''prefix/a.txt'', Size = 1, LastModified = 0, ETag = ex_etag\<rparr>"
    by code_simp
  have f: "\<not> sizeOnly ex_config"
    by (simp add: ex_config_def)
  have n: "normalizePath ''/data/a.txt'' = ''/data/a.txt''"
    by code_simp
  have e: "calcETag ex_one_unreadable ''/data/a.txt'' = Inl (OSError ''permission denied'')"
    by code_simp
  have h: "''/data/a.txt'' \<in> set (hashed (snd (Sync ex_client ex_one_unreadable globMatch ex_tree ex_config)))"
    by code_simp
  from fingerprint_failure_stops_sync [of globMatch ex_config "''/data/a.txt''" "File ''a.txt'' 1" ?st
      "\<lparr>Path = ''prefix/a.txt'', Size = 1, LastModified = 0, ETag = ex_etag\<rparr>" ex_one_unreadable
      "OSError ''permission denied''" ex_client 5 "''/data/a.txt''" ex_tree]
    c k f n e h
  show ?thesis by simp
qed

text \<open>
  The claim as the spec states it fails on the concrete run: with \<open>/data/a.txt\<close>
  unreadable, \<open>Sync\<close> returns an error after hashing that file, and neither the upload
  of \<open>sub/b.txt\<close> nor the delete of \<open>old.txt\<close>, which the run makes when every file
  is readable, takes place.
\<close>

theorem fingerprint_failure_not_local_counterexample:
  "calcETag ex_one_unreadable ''/data/a.txt'' = Inl (OSError ''permission denied'')
   \<and> calcETag ex_one_unreadable ''/data/sub/b.txt'' = Inr ex_etag
   \<and> uploads (snd (Sync ex_client ex_world globMatch ex_tree ex_config))
       = [(''/data/sub/b.txt'', ''prefix/sub/b.txt'')]
   \<and> deletes (snd (Sync ex_client ex_world globMatch ex_tree ex_config)) = [''prefix/old.txt'']
   \<and> Sync ex_client ex_one_unreadable globMatch ex_tree ex_config
       = (Returned (Some (Wrapped ''upload failed'' (OSError ''permission denied''))),
          [EvLog (GettingRemoteList ''prefix''), EvList ''prefix'', EvHash ''/data/a.txt''])
   \<and> uploads (snd (Sync ex_client ex_one_unreadable globMatch ex_tree ex_config)) = []
   \<and> deletes (snd (Sync ex_client ex_one_unreadable globMatch ex_tree ex_config)) = []"
  by code_simp

subsection \<open>The diff rule\<close>

text \<open>
  C5, as the code has it. For a candidate with path \<open>p\<close> and remote key \<open>key\<close>:
  if the key is not in the map, the file is uploaded; if it is and size-only mode is on,
  the file is uploaded exactly when the sizes differ; if it is and size-only mode is off,
  the fingerprint is computed first, whatever the sizes, and when it can be computed the
  file is uploaded exactly when the sizes differ or the fingerprints differ. In every
  other such case the file is skipped: the pair counts as the same iff the sizes match
  and size-only mode is on or the fingerprints match. When the fingerprint cannot be
  computed the file is neither uploaded nor skipped: the callback returns the error.
  A file that is uploaded is counted in \<open>uploadCount\<close>, and its task is started when the
  gate has a slot.
\<close>

theorem diff_classification:
  fixes r :: R2Client and w :: world and cap :: nat and st :: walk_state
  assumes c: "isCandidate pm cfg path info"
  defines "res \<equiv> syncWalkFn r w pm cfg cap path info st"
    and "p \<equiv> normalizePath path"
    and "key \<equiv> remoteKeyOf cfg path"
  shows
   "(map_of (remoteFiles st) key = None \<longrightarrow>
       uploadCount (snd res) = uploadCount st + 1 \<and>
       (0 < cap \<longrightarrow> fst res = Next \<and> uploads (trace (snd res)) = uploads (trace st) @ [(p, key)]))
    \<and> (map_of (remoteFiles st) key = Some ri \<and> sizeOnly cfg \<longrightarrow>
       uploadCount (snd res) = uploadCount st + (if infoSize info \<noteq> Size ri then 1 else 0) \<and>
       (0 < cap \<longrightarrow> fst res = Next \<and>
          uploads (trace (snd res)) =
            uploads (trace st) @ (if infoSize info \<noteq> Size ri then [(p, key)] else [])))
    \<and> (map_of (remoteFiles st) key = Some ri \<and> \<not> sizeOnly cfg \<and> calcETag w p = Inr etag \<longrightarrow>
       uploadCount (snd res) =
         uploadCount st + (if infoSize info \<noteq> Size ri \<or> etag \<noteq> ETag ri then 1 else 0) \<and>
       (0 < cap \<longrightarrow> fst res = Next \<and>
          uploads (trace (snd res)) =
            uploads (trace st) @
            (if infoSize info \<noteq> Size ri \<or> etag \<noteq> ETag ri then [(p, key)] else [])))
    \<and> (map_of (remoteFiles st) key = Some ri \<and> \<not> sizeOnly cfg \<and> calcETag w p = Inl err \<longrightarrow>
       fst res = Stop (Failed err) \<and> uploadCount (snd res) = uploadCount st \<and>
       uploads (trace (snd res)) = uploads (trace st))"
  unfolding res_def p_def key_def
  by (auto simp: syncWalkFn_candidate[OF c] needUpload_def Let_def)

theorem diff_classification_witness:
  "isCandidate globMatch ex_config ''/data/sub/b.txt'' (File ''b.txt'' 2)
   \<and> uploads (trace (snd (syncWalkFn ex_client ex_world globMatch ex_config 5 ''/data/sub/b.txt''
        (File ''b.txt'' 2)
        \<lparr>remoteFiles = map (\<lambda>obj. (Path obj, obj)) ex_objects, uploadCount = 0, trace = []\<rparr>)))
       = [(''/data/sub/b.txt'', ''prefix/sub/b.txt'')]
   \<and> isCandidate globMatch (ex_config\<lparr>sizeOnly := True\<rparr>) ''/data/a.txt'' (File ''a.txt'' 4)
   \<and> uploads (trace (snd (syncWalkFn ex_client ex_world globMatch (ex_config\<lparr>sizeOnly := True\<rparr>) 5
        ''/data/a.txt'' (File ''a.txt'' 4)
        \<lparr>remoteFiles = map (\<lambda>obj. (Path obj, obj)) ex_objects, uploadCount = 0, trace = []\<rparr>)))
       = [(''/data/a.txt'', ''prefix/a.txt'')]
   \<and> isCandidate globMatch ex_config ''/data/a.txt'' (File ''a.txt'' 1)
   \<and> uploads (trace (snd (syncWalkFn ex_client ex_world globMatch ex_config 5
        ''/data/a.txt'' (File ''a.txt'' 1)
        \<lparr>remoteFiles = map (\<lambda>obj. (Path obj, obj)) ex_objects, uploadCount = 0, trace = []\<rparr>)))
       = []
   \<and> fst (syncWalkFn ex_client ex_one_unreadable globMatch ex_config 5
        ''/data/a.txt'' (File ''a.txt'' 4)
        \<lparr>remoteFiles = map (\<lambda>obj. (Path obj, obj)) ex_objects, uploadCount = 0, trace = []\<rparr>)
       = Stop (Failed (OSError ''permission denied''))"
proof -
  let ?st = "\<lparr>remoteFiles = map (\<lambda>obj. (Path obj, obj)) ex_objects, uploadCount = 0, trace = []\<rparr>"
  let ?ri = "\<lparr>Path = ''prefix/a.txt'', Size = 1, LastModified = 0, ETag = ex_etag\<rparr>"
  let ?so = "ex_config\<lparr>sizeOnly := True\<rparr>"
  have c1: "isCandidate globMatch ex_config ''/data/sub/b.txt'' (File ''b.txt'' 2)"
    by code_simp
  have k1: "map_of (remoteFiles ?st) (remoteKeyOf ex_config ''/data/sub/b.txt'') = None"
    by code_simp
  have n1: "normalizePath ''/data/sub/b.txt'' = ''/data/sub/b.txt''"
    "remoteKeyOf ex_config ''/data/sub/b.txt'' = ''prefix/sub/b.txt''"
    by code_simp+
  have c2: "isCandidate globMatch ?so ''/data/a.txt'' (File ''a.txt'' 4)"
    by code_simp
  have k2: "map_of (remoteFiles ?st) (remoteKeyOf ?so ''/data/a.txt'') = Some ?ri"
    by code_simp
  have n2: "normalizePath ''/data/a.txt'' = ''/data/a.txt''"
    "remoteKeyOf ?so ''/data/a.txt'' = ''prefix/a.txt''"
    "remoteKeyOf ex_config ''/data/a.txt'' = ''prefix/a.txt''"
    by code_simp+
  have c3: "isCandidate globMatch ex_config ''/data/a.txt'' (File ''a.txt'' 1)"
    "isCandidate globMatch ex_config ''/data/a.txt'' (File ''a.txt'' 4)"
    by code_simp+
  have k3: "map_of (remoteFiles ?st) (remoteKeyOf ex_config ''/data/a.txt'') = Some ?ri"
    by code_simp
  have f: "\<not> sizeOnly ex_config" "sizeOnly ?so"
    by (simp_all add: ex_config_def)
  have h3: "calcETag ex_world ''/data/a.txt'' = Inr ex_etag"
    by code_simp
  have h4: "calcETag ex_one_unreadable ''/data/a.txt'' = Inl (OSError ''permission denied'')"
    by code_simp
  have sz: "Size ?ri = 1" "ETag ?ri = ex_etag"
    by simp_all
  from diff_classification [OF c1, where st = ?st and r = ex_client and w = ex_world and cap = 5] k1 n1
  have a: "uploads (trace (snd (syncWalkFn ex_client ex_world globMatch ex_config 5 ''/data/sub/b.txt''
        (File ''b.txt'' 2) ?st))) = [(''/data/sub/b.txt'', ''prefix/sub/b.txt'')]"
    by simp
  from diff_classification [OF c2, where st = ?st and ri = ?ri and r = ex_client and w = ex_world and cap = 5] k2 n2 f
  have b: "uploads (trace (snd (syncWalkFn ex_client ex_world globMatch ?so 5
        ''/data/a.txt'' (File ''a.txt'' 4) ?st))) = [(''/data/a.txt'', ''prefix/a.txt'')]"
    by simp
  from diff_classification [OF c3(1), where st = ?st and ri = ?ri and r = ex_client and w = ex_world
      and cap = 5 and etag = ex_etag] k3 n2 f h3
  have c: "uploads (trace (snd (syncWalkFn ex_client ex_world globMatch ex_config 5
        ''/data/a.txt'' (File ''a.txt'' 1) ?st))) = []"
    by simp
  from diff_classification [OF c3(2), where st = ?st and ri = ?ri and r = ex_client
      and w = ex_one_unreadable and cap = 5 and err = "OSError ''permission denied''"]
    k3 n2 f h4
  have d: "fst (syncWalkFn ex_client ex_one_unreadable globMatch ex_config 5
        ''/data/a.txt'' (File ''a.txt'' 4) ?st) = Stop (Failed (OSError ''permission denied''))"
    by simp
  from c1 c2 c3(1) a b c d show ?thesis by blast
qed

text \<open>
  The claim as the spec states it fails for a candidate whose contents cannot be read:
  its remote copy has another size, so the claim has it uploaded, but the callback stops
  with the error of the hash and \<open>Sync\<close> returns that error.
\<close>

theorem diff_unreadable_counterexample:
  "map_of [(''prefix/a.txt'', \<lparr>Path = ''prefix/a.txt'', Size = 9, LastModified = 0, ETag = ex_etag\<rparr>)]
      (remoteKeyOf ex_config ''/data/a.txt'')
     = Some \<lparr>Path = ''prefix/a.txt'', Size = 9, LastModified = 0, ETag = ex_etag\<rparr>
   \<and> infoSize (File ''a.txt'' 1) \<noteq> 9
   \<and> syncWalkFn ex_client ex_resized globMatch ex_config 5 ''/data/a.txt'' (File ''a.txt'' 1)
        \<lparr>remoteFiles = [(''prefix/a.txt'',
            \<lparr>Path = ''prefix/a.txt'', Size = 9, LastModified = 0, ETag = ex_etag\<rparr>)],
          uploadCount = 0, trace = []\<rparr>
     = (Stop (Failed (OSError ''permission denied'')),
        \<lparr>remoteFiles = [(''prefix/a.txt'',
            \<lparr>Path = ''prefix/a.txt'', Size = 9, LastModified = 0, ETag = ex_etag\<rparr>)],
          uploadCount = 0, trace = [EvHash ''/data/a.txt'']\<rparr>)
   \<and> Sync ex_client ex_resized globMatch ex_tree ex_config
     = (Returned (Some (Wrapped ''upload failed'' (OSError ''permission denied''))),
        [EvLog (GettingRemoteList ''prefix''), EvList ''prefix'', EvHash ''/data/a.txt''])"
  by code_simp

subsection \<open>Excluded directories\<close>




subsection \<open>The concurrency value\<close>

text \<open>
  C3, as the code has it. Nothing validates the concurrency value: \<open>main\<close> hands it to
  \<open>Sync\<close> as it is. For a command line with two arguments, a target that parses and a
  configuration that loads, and a concurrency of 0 or less: the run first asks for the
  remote listing; if the listing succeeds and the value is negative, the program panics
  when it creates the gate, having done nothing else; if the value is 0 the gate is
  created without a slot and the program does not panic, but it never takes a slot and
  never starts an upload or a delete. With the value 0 the run blocks for ever at the
  first task it submits: compared with the same run under any concurrency \<open>n\<close> above 0,
  if that run admits a task then the run with 0 never ends, and its events are those of
  the other run up to, and without, its first admission; if that run admits no task, the
  two runs are the same.
\<close>

theorem concurrency_not_validated:
  assumes a: "flag_args fl = [src, tgt]" and u: "urlParse (normalizePath tgt) = Inr u"
    and k: "configErr = None" and c: "flag_concurrency fl \<le> 0"
  shows
   "(\<exists>rest. snd (main urlParse configErr w pm tree fl)
        = [EvLog (GettingRemoteList (trimSlash (UrlPath u))), EvList (trimSlash (UrlPath u))] @ rest)
    \<and> (flag_concurrency fl < 0 \<and> listing w = Inr objs \<longrightarrow>
         main urlParse configErr w pm tree fl
           = (Crash, [EvLog (GettingRemoteList (trimSlash (UrlPath u))), EvList (trimSlash (UrlPath u))]))
    \<and> (flag_concurrency fl = 0 \<longrightarrow>
         fst (main urlParse configErr w pm tree fl) \<noteq> Crash \<and>
         uploads (snd (main urlParse configErr w pm tree fl)) = [] \<and>
         deletes (snd (main urlParse configErr w pm tree fl)) = [] \<and>
         EvAcquire \<notin> set (snd (main urlParse configErr w pm tree fl)))
    \<and> (flag_concurrency fl = 0 \<and> 0 < n \<longrightarrow>
         (if EvAcquire \<in> set (snd (main urlParse configErr w pm tree (fl\<lparr>flag_concurrency := n\<rparr>)))
          then main urlParse configErr w pm tree fl
                 = (Hang, takeWhile (\<lambda>e. e \<noteq> EvAcquire)
                            (snd (main urlParse configErr w pm tree (fl\<lparr>flag_concurrency := n\<rparr>))))
          else main urlParse configErr w pm tree fl
                 = main urlParse configErr w pm tree (fl\<lparr>flag_concurrency := n\<rparr>)))"
proof -
  let ?r = "\<lparr>bucket = Host u, scheme = Scheme u\<rparr>"
  let ?cfg = "\<lparr>localPath = normalizePath src, remotePath = trimSlash (UrlPath u),
               deleteSync = flag_delete fl, dryRun = flag_dryrun fl,
               recursive = flag_recursive fl, concurrency = flag_concurrency fl,
               sizeOnly = flag_size_only fl, excludePatterns = map normalizePath (flag_exclude fl)\<rparr>"
  let ?tr0 = "[EvLog (GettingRemoteList (trimSlash (UrlPath u))), EvList (trimSlash (UrlPath u))]"
  obtain oc tr where run: "Sync ?r w pm tree ?cfg = (oc, tr)" by (cases "Sync ?r w pm tree ?cfg")
  have m: "main urlParse configErr w pm tree fl =
      (case oc of Returned None \<Rightarrow> (Exit 0, tr)
       | Returned (Some err) \<Rightarrow> (Exit 1, tr @ [EvLog (Fatal err)])
       | Panicked \<Rightarrow> (Crash, tr) | Blocked \<Rightarrow> (Hang, tr))"
    using a u k run by (simp add: main_def Let_def split: outcome.splits option.splits)
  from Sync_starts_with_listing[of ?r w pm tree ?cfg] run
  obtain rest where rest: "tr = ?tr0 @ rest" by auto
  have first: "\<exists>rest. snd (main urlParse configErr w pm tree fl) = ?tr0 @ rest"
    using m rest by (auto split: outcome.splits option.splits)
  have neg: "main urlParse configErr w pm tree fl = (Crash, ?tr0)"
    if "flag_concurrency fl < 0 \<and> listing w = Inr objs"
  proof -
    have "Sync ?r w pm tree ?cfg = (Panicked, ?tr0)"
      using that by (simp add: Sync_def ListObjects_def)
    with run m show ?thesis by simp
  qed
  have zero: "fst (main urlParse configErr w pm tree fl) \<noteq> Crash \<and>
         uploads (snd (main urlParse configErr w pm tree fl)) = [] \<and>
         deletes (snd (main urlParse configErr w pm tree fl)) = [] \<and>
         EvAcquire \<notin> set (snd (main urlParse configErr w pm tree fl))"
    if "flag_concurrency fl = 0"
  proof -
    have "concurrency ?cfg = 0" using that by simp
    from Sync_no_slot[OF this, of ?r w pm tree] run
    have "oc \<noteq> Panicked" "uploads tr = []" "deletes tr = []" "EvAcquire \<notin> set tr"
      by simp_all
    then show ?thesis using m
      by (auto split: outcome.splits option.splits)
  qed
  have hang: "if EvAcquire \<in> set (snd (main urlParse configErr w pm tree (fl\<lparr>flag_concurrency := n\<rparr>)))
          then main urlParse configErr w pm tree fl
                 = (Hang, takeWhile (\<lambda>e. e \<noteq> EvAcquire)
                            (snd (main urlParse configErr w pm tree (fl\<lparr>flag_concurrency := n\<rparr>))))
          else main urlParse configErr w pm tree fl
                 = main urlParse configErr w pm tree (fl\<lparr>flag_concurrency := n\<rparr>)"
    if z: "flag_concurrency fl = 0 \<and> 0 < n"
  proof -
    let ?m1 = "main urlParse configErr w pm tree (fl\<lparr>flag_concurrency := n\<rparr>)"
    have cz: "concurrency ?cfg = 0" and pos: "0 < n" using z by simp_all
    obtain oc1 tr1 where run1: "Sync ?r w pm tree (?cfg\<lparr>concurrency := n\<rparr>) = (oc1, tr1)"
      by (cases "Sync ?r w pm tree (?cfg\<lparr>concurrency := n\<rparr>)")
    have m1: "?m1 =
      (case oc1 of Returned None \<Rightarrow> (Exit 0, tr1)
       | Returned (Some err) \<Rightarrow> (Exit 1, tr1 @ [EvLog (Fatal err)])
       | Panicked \<Rightarrow> (Crash, tr1) | Blocked \<Rightarrow> (Hang, tr1))"
      using a u k run1 by (simp add: main_def Let_def split: outcome.splits option.splits)
    have no: "EvAcquire \<notin> set tr"
      using Sync_no_slot[OF cz, of ?r w pm tree] run by simp
    from Sync_blocked_before[OF cz pos, of ?r w pm tree] run run1
    have "(oc, tr) = (oc1, tr1) \<or> (oc = Blocked \<and> (\<exists>rest. tr1 = tr @ EvAcquire # rest))"
      by simp
    then show ?thesis
    proof
      assume "(oc, tr) = (oc1, tr1)"
      then have eq: "oc1 = oc" "tr1 = tr" by simp_all
      have same: "?m1 = main urlParse configErr w pm tree fl"
        by (simp only: m m1 eq)
      have "EvAcquire \<notin> set (snd (main urlParse configErr w pm tree fl))"
        using zero z by blast
      then show ?thesis using same by simp
    next
      assume "oc = Blocked \<and> (\<exists>rest. tr1 = tr @ EvAcquire # rest)"
      then obtain rest where b: "oc = Blocked" "tr1 = tr @ EvAcquire # rest" by blast
      have "\<exists>evs. snd ?m1 = tr1 @ evs"
        using m1 by (auto split: outcome.splits option.splits)
      then obtain evs where "snd ?m1 = tr1 @ evs" by blast
      then have s1: "snd ?m1 = tr @ EvAcquire # (rest @ evs)" using b by simp
      have "takeWhile (\<lambda>e. e \<noteq> EvAcquire) (snd ?m1) = tr"
        using takeWhile_first_slot[OF no] s1 by simp
      moreover have "EvAcquire \<in> set (snd ?m1)" using s1 by simp
      moreover have "main urlParse configErr w pm tree fl = (Hang, tr)" using m b by simp
      ultimately show ?thesis by simp
    qed
  qed
  from first neg zero hang show ?thesis by blast
qed


theorem concurrency_not_validated_witness:
  "flag_args (ex_flags\<lparr>flag_concurrency := -1\<rparr>) = [''/data'', ''r2://bkt/prefix'']
   \<and> ex_urlParse (normalizePath ''r2://bkt/prefix'')
       = Inr \<lparr>Scheme = ''r2'', Host = ''bkt'', UrlPath = ''/prefix''\<rparr>
   \<and> main ex_urlParse None ex_world globMatch ex_tree (ex_flags\<lparr>flag_concurrency := -1\<rparr>)
       = (Crash, [EvLog (GettingRemoteList ''prefix''), EvList ''prefix''])
   \<and> fst (main ex_urlParse None ex_world globMatch ex_tree (ex_flags\<lparr>flag_concurrency := 0\<rparr>)) \<noteq> Crash
   \<and> uploads (snd (main ex_urlParse None ex_world globMatch ex_tree (ex_flags\<lparr>flag_concurrency := 0\<rparr>))) = []
   \<and> EvAcquire \<notin> set (snd (main ex_urlParse None ex_world globMatch ex_tree (ex_flags\<lparr>flag_concurrency := 0\<rparr>)))
   \<and> EvAcquire \<in> set (snd (main ex_urlParse None ex_world globMatch ex_tree (ex_flags\<lparr>flag_concurrency := 5\<rparr>)))
   \<and> main ex_urlParse None ex_world globMatch ex_tree (ex_flags\<lparr>flag_concurrency := 0\<rparr>)
       = (Hang, [EvLog (GettingRemoteList ''prefix''), EvList ''prefix'',
                 EvHash ''/data/a.txt'', EvClaim ''prefix/a.txt'',
                 EvHash ''/data/logs/x.log'', EvClaim ''prefix/logs/x.log''])
   \<and> EvAcquire \<notin> set (snd (main ex_urlParse None ex_world globMatch (Dir ''data'' [File ''a.txt'' 1])
                                (ex_flags\<lparr>flag_delete := False, flag_concurrency := 5\<rparr>)))
   \<and> main ex_urlParse None ex_world globMatch (Dir ''data'' [File ''a.txt'' 1])
         (ex_flags\<lparr>flag_delete := False, flag_concurrency := 0\<rparr>)
       = (Exit 0, [EvLog (GettingRemoteList ''prefix''), EvList ''prefix'',
                   EvHash ''/data/a.txt'', EvClaim ''prefix/a.txt'',
                   EvLog (FilesUploaded 0), EvLog SyncCompleted])"
proof -
  let ?u = "\<lparr>Scheme = ''r2'', Host = ''bkt'', UrlPath = ''/prefix''\<rparr>"
  let ?quiet = "Dir ''data'' [File ''a.txt'' 1]"
  let ?m1 = "main ex_urlParse None ex_world globMatch ex_tree (ex_flags\<lparr>flag_concurrency := 5\<rparr>)"
  let ?q1 = "main ex_urlParse None ex_world globMatch ?quiet
               (ex_flags\<lparr>flag_delete := False, flag_concurrency := 5\<rparr>)"
  have a: "flag_args (ex_flags\<lparr>flag_concurrency := -1\<rparr>) = [''/data'', ''r2://bkt/prefix'']"
    "flag_args (ex_flags\<lparr>flag_concurrency := 0\<rparr>) = [''/data'', ''r2://bkt/prefix'']"
    "flag_args (ex_flags\<lparr>flag_delete := False, flag_concurrency := 0\<rparr>) = [''/data'', ''r2://bkt/prefix'']"
    by (simp_all add: ex_flags_def)
  have u: "ex_urlParse (normalizePath ''r2://bkt/prefix'') = Inr ?u"
    by code_simp
  have c: "flag_concurrency (ex_flags\<lparr>flag_concurrency := -1\<rparr>) \<le> 0"
    "flag_concurrency (ex_flags\<lparr>flag_concurrency := -1\<rparr>) < 0"
    "flag_concurrency (ex_flags\<lparr>flag_concurrency := 0\<rparr>) \<le> 0"
    "flag_concurrency (ex_flags\<lparr>flag_concurrency := 0\<rparr>) = 0"
    "flag_concurrency (ex_flags\<lparr>flag_delete := False, flag_concurrency := 0\<rparr>) \<le> 0"
    "flag_concurrency (ex_flags\<lparr>flag_delete := False, flag_concurrency := 0\<rparr>) = 0"
    by simp_all
  have l: "listing ex_world = Inr ex_objects"
    by (simp add: ex_world_def)
  have t: "trimSlash (UrlPath ?u) = ''prefix''"
    by code_simp
  have s1: "EvAcquire \<in> set (snd ?m1)"
    by code_simp
  have p1: "takeWhile (\<lambda>e. e \<noteq> EvAcquire) (snd ?m1)
      = [EvLog (GettingRemoteList ''prefix''), EvList ''prefix'',
         EvHash ''/data/a.txt'', EvClaim ''prefix/a.txt'',
         EvHash ''/data/logs/x.log'', EvClaim ''prefix/logs/x.log'']"
    by code_simp
  have sq: "EvAcquire \<notin> set (snd ?q1)"
    by code_simp
  have q1: "?q1 = (Exit 0, [EvLog (GettingRemoteList ''prefix''), EvList ''prefix'',
                   EvHash ''/data/a.txt'', EvClaim ''prefix/a.txt'',
                   EvLog (FilesUploaded 0), EvLog SyncCompleted])"
    by code_simp
  from concurrency_not_validated [where urlParse = ex_urlParse and configErr = None
      and w = ex_world and objs = ex_objects and pm = globMatch and tree = ex_tree, OF a(1) u refl c(1)]
    c(2) l t
  have neg: "main ex_urlParse None ex_world globMatch ex_tree (ex_flags\<lparr>flag_concurrency := -1\<rparr>)
       = (Crash, [EvLog (GettingRemoteList ''prefix''), EvList ''prefix''])"
    by simp
  note Z = concurrency_not_validated [where urlParse = ex_urlParse and configErr = None
      and w = ex_world and pm = globMatch and tree = ex_tree and n = 5, OF a(2) u refl c(3)]
  from Z c(4)
  have zero: "fst (main ex_urlParse None ex_world globMatch ex_tree (ex_flags\<lparr>flag_concurrency := 0\<rparr>)) \<noteq> Crash"
    "uploads (snd (main ex_urlParse None ex_world globMatch ex_tree (ex_flags\<lparr>flag_concurrency := 0\<rparr>))) = []"
    "EvAcquire \<notin> set (snd (main ex_urlParse None ex_world globMatch ex_tree (ex_flags\<lparr>flag_concurrency := 0\<rparr>)))"
    by blast+
  from Z c(4) have "if EvAcquire \<in> set (snd ?m1)
      then main ex_urlParse None ex_world globMatch ex_tree (ex_flags\<lparr>flag_concurrency := 0\<rparr>)
             = (Hang, takeWhile (\<lambda>e. e \<noteq> EvAcquire) (snd ?m1))
      else main ex_urlParse None ex_world globMatch ex_tree (ex_flags\<lparr>flag_concurrency := 0\<rparr>) = ?m1"
    by simp
  with s1 p1 have hang: "main ex_urlParse None ex_world globMatch ex_tree (ex_flags\<lparr>flag_concurrency := 0\<rparr>)
       = (Hang, [EvLog (GettingRemoteList ''prefix''), EvList ''prefix'',
                 EvHash ''/data/a.txt'', EvClaim ''prefix/a.txt'',
                 EvHash ''/data/logs/x.log'', EvClaim ''prefix/logs/x.log''])"
    by simp
  from concurrency_not_validated [where urlParse = ex_urlParse and configErr = None
      and w = ex_world and pm = globMatch and tree = ?quiet and n = 5, OF a(3) u refl c(5)] c(6)
  have "if EvAcquire \<in> set (snd ?q1)
      then main ex_urlParse None ex_world globMatch ?quiet
             (ex_flags\<lparr>flag_delete := False, flag_concurrency := 0\<rparr>)
             = (Hang, takeWhile (\<lambda>e. e \<noteq> EvAcquire) (snd ?q1))
      else main ex_urlParse None ex_world globMatch ?quiet
             (ex_flags\<lparr>flag_delete := False, flag_concurrency := 0\<rparr>) = ?q1"
    by simp
  with sq q1 have quiet: "main ex_urlParse None ex_world globMatch ?quiet
         (ex_flags\<lparr>flag_delete := False, flag_concurrency := 0\<rparr>)
       = (Exit 0, [EvLog (GettingRemoteList ''prefix''), EvList ''prefix'',
                   EvHash ''/data/a.txt'', EvClaim ''prefix/a.txt'',
                   EvLog (FilesUploaded 0), EvLog SyncCompleted])"
    by simp
  from a(1) u neg zero s1 hang sq quiet show ?thesis by blast
qed

text \<open>
  The claim as the spec states it fails on the concrete run: with a concurrency of -1 the
  program asks for the listing and then panics; with 0 it asks for the listing, walks and
  hashes, and then blocks for ever at the first upload it submits. No configuration error
  is reported in either run.
\<close>

theorem concurrency_config_error_counterexample:
  "main ex_urlParse None ex_world globMatch ex_tree (ex_flags\<lparr>flag_concurrency := -1\<rparr>)
     = (Crash, [EvLog (GettingRemoteList ''prefix''), EvList ''prefix''])
   \<and> main ex_urlParse None ex_world globMatch ex_tree (ex_flags\<lparr>flag_concurrency := 0\<rparr>)
     = (Hang, [EvLog (GettingRemoteList ''prefix''), EvList ''prefix'',
               EvHash ''/data/a.txt'', EvClaim ''prefix/a.txt'',
               EvHash ''/data/logs/x.log'', EvClaim ''prefix/logs/x.log''])
   \<and> fst (Sync ex_client ex_world globMatch ex_tree (ex_config\<lparr>concurrency := 0\<rparr>)) = Blocked"
  by code_simp

subsection \<open>Non-recursive mode\<close>

text \<open>
  C4. What the code does when \<open>recursive\<close> is off. Every upload of a run is for a file
  whose \<open>path.Dir\<close> is the sync root, so a file in a nested directory never appears in
  a decision. But the test on the parent directory is applied to the root directory too:
  when the root is not its own \<open>path.Dir\<close> (every root but \<open>.\<close> and \<open>/\<close>), the
  callback returns \<open>SkipDir\<close> for the root and the walk ends there with the state
  unchanged, whatever the root holds. The witness runs the code on the root \<open>/data\<close>
  with \<open>a.txt\<close> directly in it: with an empty bucket nothing is uploaded, and with
  delete mode on every listed key is deleted, the key of \<open>a.txt\<close> among them; on the
  root \<open>.\<close> the same tree gives the upload of \<open>a.txt\<close>, and the directory
  \<open>sub\<close> is entered, not pruned: its parent is the root.
\<close>

theorem nonrecursive_walk:
  "(\<not> recursive cfg \<longrightarrow>
      (\<forall>x \<in> set (uploads (snd (Sync r w pm tree cfg))). path_Dir (fst x) = localPath cfg))
   \<and> (\<not> recursive cfg \<and> path_Dir (normalizePath (localPath cfg)) \<noteq> localPath cfg \<longrightarrow>
        filepath_Walk (syncWalkFn r w pm cfg cap) (localPath cfg) (Dir name entries) st = (None, st))"
proof (rule conjI; rule impI)
  assume "\<not> recursive cfg"
  then show "\<forall>x \<in> set (uploads (snd (Sync r w pm tree cfg))). path_Dir (fst x) = localPath cfg"
    by (rule Sync_nonrecursive_uploads)
next
  assume "\<not> recursive cfg \<and> path_Dir (normalizePath (localPath cfg)) \<noteq> localPath cfg"
  then show "filepath_Walk (syncWalkFn r w pm cfg cap) (localPath cfg) (Dir name entries) st = (None, st)"
    by (simp add: filepath_Walk_def syncWalkFn_Dir)
qed

theorem nonrecursive_walk_witness:
  "\<not> recursive (ex_config\<lparr>recursive := False\<rparr>)
   \<and> path_Dir (normalizePath ''/data'') = ''/''
   \<and> filepath_Walk (syncWalkFn ex_client ex_empty_bucket globMatch (ex_config\<lparr>recursive := False\<rparr>) 5)
        ''/data'' ex_tree \<lparr>remoteFiles = [], uploadCount = 0, trace = []\<rparr>
      = (None, \<lparr>remoteFiles = [], uploadCount = 0, trace = []\<rparr>)
   \<and> uploads (snd (Sync ex_client ex_empty_bucket globMatch ex_tree (ex_config\<lparr>recursive := False\<rparr>))) = []
   \<and> deletes (snd (Sync ex_client ex_world globMatch ex_tree (ex_config\<lparr>recursive := False\<rparr>)))
      = [''prefix/a.txt'', ''prefix/logs/x.log'', ''prefix/old.txt'']
   \<and> path_Dir (normalizePath ''.'') = ''.''
   \<and> uploads (snd (Sync ex_client ex_empty_bucket globMatch ex_tree
                      (ex_config\<lparr>recursive := False, localPath := ''.''\<rparr>)))
      = [(''a.txt'', ''prefix/a.txt'')]
   \<and> list_all (\<lambda>x. path_Dir (fst x) = ''.'')
        (uploads (snd (Sync ex_client ex_empty_bucket globMatch ex_tree
                      (ex_config\<lparr>recursive := False, localPath := ''.''\<rparr>))))
   \<and> fst (syncWalkFn ex_client ex_empty_bucket globMatch
             (ex_config\<lparr>recursive := False, localPath := ''.''\<rparr>) 5
             ''sub'' (Dir ''sub'' [File ''b.txt'' 2])
             \<lparr>remoteFiles = [], uploadCount = 0, trace = []\<rparr>) = Next"
proof -
  let ?cfg = "ex_config\<lparr>recursive := False\<rparr>"
  let ?dot = "ex_config\<lparr>recursive := False, localPath := ''.''\<rparr>"
  let ?st = "\<lparr>remoteFiles = [], uploadCount = 0, trace = []\<rparr>"
  have nr: "\<not> recursive ?cfg" "\<not> recursive ?dot"
    by simp_all
  have lp: "localPath ?cfg = ''/data''" "localPath ?dot = ''.''"
    by (simp_all add: ex_config_def)
  have d: "path_Dir (normalizePath ''/data'') = ''/''" "path_Dir (normalizePath ''.'') = ''.''"
    by code_simp+
  have ne: "path_Dir (normalizePath (localPath ?cfg)) \<noteq> localPath ?cfg"
    using d lp by simp
  have t: "ex_tree = Dir ''data'' [File ''a.txt'' 1, Dir ''logs'' [File ''x.log'' 7], Dir ''sub'' [File ''b.txt'' 2]]"
    by (simp add: ex_tree_def)
  note T = nonrecursive_walk [where cfg = ?cfg and r = ex_client and w = ex_empty_bucket
      and pm = globMatch and cap = 5 and name = "''data''"
      and entries = "[File ''a.txt'' 1, Dir ''logs'' [File ''x.log'' 7], Dir ''sub'' [File ''b.txt'' 2]]"
      and st = ?st]
  from T nr(1) ne have "filepath_Walk (syncWalkFn ex_client ex_empty_bucket globMatch ?cfg 5)
        (localPath ?cfg) (Dir ''data'' [File ''a.txt'' 1, Dir ''logs'' [File ''x.log'' 7], Dir ''sub'' [File ''b.txt'' 2]]) ?st
      = (None, ?st)"
    by blast
  then have a: "filepath_Walk (syncWalkFn ex_client ex_empty_bucket globMatch ?cfg 5) ''/data'' ex_tree ?st
      = (None, ?st)"
    by (simp only: lp t)
  have b: "uploads (snd (Sync ex_client ex_empty_bucket globMatch ex_tree ?cfg)) = []"
    by code_simp
  have c: "deletes (snd (Sync ex_client ex_world globMatch ex_tree ?cfg))
      = [''prefix/a.txt'', ''prefix/logs/x.log'', ''prefix/old.txt'']"
    by code_simp
  have e: "uploads (snd (Sync ex_client ex_empty_bucket globMatch ex_tree ?dot)) = [(''a.txt'', ''prefix/a.txt'')]"
    by code_simp
  from nonrecursive_walk [where cfg = ?dot and r = ex_client and w = ex_empty_bucket
      and pm = globMatch and tree = ex_tree] nr(2)
  have "\<forall>x \<in> set (uploads (snd (Sync ex_client ex_empty_bucket globMatch ex_tree ?dot))).
          path_Dir (fst x) = localPath ?dot"
    by blast
  then have f: "list_all (\<lambda>x. path_Dir (fst x) = ''.'')
        (uploads (snd (Sync ex_client ex_empty_bucket globMatch ex_tree ?dot)))"
    by (simp only: lp list_all_iff)
  have g: "fst (syncWalkFn ex_client ex_empty_bucket globMatch ?dot 5
             ''sub'' (Dir ''sub'' [File ''b.txt'' 2]) ?st) = Next"
    by code_simp
  from nr(1) d a b c e f g show ?thesis by blast
qed

subsection \<open>Bounded execution\<close>

text \<open>
  C9, as the code has it. In every state that a phase can reach, under every schedule and
  for every task list and every capacity \<open>n\<close> of the gate: the tasks that hold a slot
  are as many as the items in the channel and at most \<open>n\<close>. While the send for a task
  is pending and the gate is full, the submitter can take no step at all (not this send,
  not the next \<open>wg.Add\<close>, not the return); as soon as a slot is free the send is
  enabled. A phase that the submitter leaves through \<open>wg.Wait()\<close> is left only when
  every task has recorded its outcome, given its slot back and called \<open>wg.Done()\<close>.
  This does not hold when the walk fails: then \<open>Sync\<close> returns through the \<open>return\<close>
  that precedes \<open>wg.Wait()\<close>.
\<close>

theorem gate_bound_and_wait:
  assumes r: "run n failed acts (start tasks) = Some g"
  shows
   "length (filter holdsSlot (stages g)) \<le> n
    \<and> slots g = length (filter holdsSlot (stages g))
    \<and> (i < length (stages g) \<and> stages g ! i = Added \<and> slots g = n \<longrightarrow>
         fire n failed (Send i) g = None \<and> (\<forall>j. fire n failed (Add j) g = None) \<and>
         fire n failed Return g = None)
    \<and> (i < length (stages g) \<and> stages g ! i = Added \<and> slots g < n \<longrightarrow>
         fire n failed (Send i) g \<noteq> None)
    \<and> (returned g \<and> \<not> failed \<longrightarrow> list_all (\<lambda>x. x = Gone) (stages g))"
proof -
  have inv: "gate_inv n failed g"
    using run_inv[OF start_inv r] .
  have "length (filter holdsSlot (stages g)) \<le> n" "slots g = length (filter holdsSlot (stages g))"
    using inv by (simp_all add: gate_inv_def)
  moreover have "fire n failed (Send i) g = None \<and> (\<forall>j. fire n failed (Add j) g = None) \<and>
         fire n failed Return g = None"
    if "i < length (stages g) \<and> stages g ! i = Added \<and> slots g = n"
  proof -
    from that have i: "i < length (stages g)" "stages g ! i = Added" and full: "slots g = n" by simp_all
    have "fire n failed (Send i) g = None" using full by simp
    moreover have "\<forall>j. fire n failed (Add j) g = None" using added_blocks_add[OF inv i] by blast
    moreover have "fire n failed Return g = None" using added_blocks_return[OF i] .
    ultimately show ?thesis by blast
  qed
  moreover have "fire n failed (Send i) g \<noteq> None"
    if "i < length (stages g) \<and> stages g ! i = Added \<and> slots g < n"
    using that by simp
  moreover have "list_all (\<lambda>x. x = Gone) (stages g)" if "returned g \<and> \<not> failed"
    using that inv by (simp add: gate_inv_def)
  ultimately show ?thesis by blast
qed

theorem gate_bound_and_wait_witness:
  "run 1 False [Add 0, Send 0, Add 1] (start [DeleteTask ''a'', DeleteTask ''b''])
     = Some \<lparr>stages = [Working, Added], slots = 1, wg = 2, returned = False\<rparr>
   \<and> fire 1 False (Send 1) \<lparr>stages = [Working, Added], slots = 1, wg = 2, returned = False\<rparr> = None
   \<and> run 1 False [Add 0, Send 0, Add 1, Finish 0, Release 0]
        (start [DeleteTask ''a'', DeleteTask ''b''])
     = Some \<lparr>stages = [Released, Added], slots = 0, wg = 2, returned = False\<rparr>
   \<and> fire 1 False (Send 1) \<lparr>stages = [Released, Added], slots = 0, wg = 2, returned = False\<rparr>
     = Some \<lparr>stages = [Released, Working], slots = 1, wg = 2, returned = False\<rparr>
   \<and> run 1 False [Add 0, Send 0, Add 1, Finish 0, Release 0, Send 1, Done 0, Finish 1, Release 1,
                   Done 1, Return]
        (start [DeleteTask ''a'', DeleteTask ''b''])
     = Some \<lparr>stages = [Gone, Gone], slots = 0, wg = 0, returned = True\<rparr>
   \<and> list_all (\<lambda>x. x = Gone) (stages \<lparr>stages = [Gone, Gone], slots = 0, wg = 0, returned = True\<rparr>)"
proof -
  let ?tasks = "[DeleteTask ''a'', DeleteTask ''b'']"
  let ?full = "\<lparr>stages = [Working, Added], slots = 1, wg = 2, returned = False\<rparr>"
  let ?free = "\<lparr>stages = [Released, Added], slots = 0, wg = 2, returned = False\<rparr>"
  let ?end = "\<lparr>stages = [Gone, Gone], slots = 0, wg = 0, returned = True\<rparr>"
  have r1: "run 1 False [Add 0, Send 0, Add 1] (start ?tasks) = Some ?full"
    by code_simp
  have r2: "run 1 False [Add 0, Send 0, Add 1, Finish 0, Release 0] (start ?tasks) = Some ?free"
    by code_simp
  have r3: "run 1 False [Add 0, Send 0, Add 1, Finish 0, Release 0, Send 1, Done 0, Finish 1,
      Release 1, Done 1, Return] (start ?tasks) = Some ?end"
    by code_simp
  have h1: "1 < length (stages ?full) \<and> stages ?full ! 1 = Added \<and> slots ?full = 1"
    by simp
  have h2: "1 < length (stages ?free) \<and> stages ?free ! 1 = Added \<and> slots ?free < 1"
    by simp
  have h3: "returned ?end \<and> \<not> False"
    by simp
  from gate_bound_and_wait [OF r1, of 1] h1
  have a: "fire 1 False (Send 1) ?full = None"
    by blast
  from gate_bound_and_wait [OF r2, of 1] h2
  have "fire 1 False (Send 1) ?free \<noteq> None"
    by blast
  then have b: "fire 1 False (Send 1) ?free
      = Some \<lparr>stages = [Released, Working], slots = 1, wg = 2, returned = False\<rparr>"
    by simp
  from gate_bound_and_wait [OF r3] h3
  have c: "list_all (\<lambda>x. x = Gone) (stages ?end)"
    by blast
  from r1 a r2 b r3 c show ?thesis by blast
qed

text \<open>
  The claim as the spec states it fails on a run whose walk fails after an upload has been
  started: \<open>a.txt\<close> has no remote copy and is uploaded, then \<open>logs/x.log\<close> cannot be
  hashed and \<open>Sync\<close> returns the error. In the schedule below the submitter has
  returned while the upload is still at work, its outcome not recorded.
\<close>

theorem return_before_tasks_end_counterexample:
  "fst (Sync ex_client ex_late_failure globMatch ex_tree ex_config)
     = Returned (Some (Wrapped ''upload failed'' (OSError ''permission denied'')))
   \<and> uploads (snd (Sync ex_client ex_late_failure globMatch ex_tree ex_config))
     = [(''/data/a.txt'', ''prefix/a.txt'')]
   \<and> run 5 True [Add 0, Send 0, Return] (start [UploadTask ''/data/a.txt'' ''prefix/a.txt''])
     = Some \<lparr>stages = [Working], slots = 1, wg = 1, returned = True\<rparr>"
  by code_simp

end
